theory Spec2Isabelle
  imports Complex_Main
begin

section \<open>DOM helpers shared by both scripts\<close>

text \<open>
  A \<open>classList\<close> is a set of class tokens. \<open>add\<close> and \<open>remove\<close> are idempotent, and
  \<open>toggle(c, force)\<close> adds the token when \<open>force\<close> is true and removes it otherwise.
\<close>

type_synonym classList = "string set"

definition classList_add :: "string \<Rightarrow> classList \<Rightarrow> classList" where
  "classList_add c cls = insert c cls"

definition classList_remove :: "string \<Rightarrow> classList \<Rightarrow> classList" where
  "classList_remove c cls = cls - {c}"

definition classList_toggle :: "string \<Rightarrow> bool \<Rightarrow> classList \<Rightarrow> classList" where
  "classList_toggle c force cls = (if force then classList_add c cls else classList_remove c cls)"

section \<open>theme.js\<close>

definition THEME_KEY :: string where
  "THEME_KEY = ''focus-battle-theme''"

definition DEFAULT_THEME :: string where
  "DEFAULT_THEME = ''theme-lofi''"

definition VALID_THEMES :: "string list" where
  "VALID_THEMES = [''theme-lofi'', ''theme-porsche'', ''theme-f1'', ''theme-nyc'', ''theme-liquid'']"

text \<open>
  What \<open>theme.js\<close> touches: the element with id \<open>app-body\<close> (absent on a page that has
  none), \<open>localStorage\<close>, and the \<open>.theme-pill\<close> buttons, each with its \<open>data-theme\<close>
  attribute (absent when the button has none) and its class list.
\<close>

record pill =
  dataset_theme :: "string option"
  pill_classes :: classList

record theme_env =
  app_body :: "classList option"
  localStorage :: "string \<rightharpoonup> string"
  theme_pills :: "pill list"

text \<open>
  The argument of \<open>applyTheme\<close> is a string, or \<open>None\<close> for the \<open>undefined\<close> that
  \<open>btn.dataset.theme\<close> yields on a pill without the attribute. \<open>VALID_THEMES.includes\<close>
  is false for it, as for every string outside the list.
\<close>

definition normalizeTheme :: "string option \<Rightarrow> string" where
  "normalizeTheme themeName =
     (case themeName of
        None \<Rightarrow> DEFAULT_THEME
      | Some t \<Rightarrow> if t \<in> set VALID_THEMES then t else DEFAULT_THEME)"

definition applyTheme :: "string option \<Rightarrow> theme_env \<Rightarrow> theme_env" where
  "applyTheme themeName env =
     (let name = normalizeTheme themeName in
      case app_body env of
        None \<Rightarrow> env
      | Some body \<Rightarrow>
          env\<lparr> app_body := Some (classList_add name (fold classList_remove VALID_THEMES body)),
               localStorage := (localStorage env)(THEME_KEY \<mapsto> name),
               theme_pills :=
                 map (\<lambda>btn. btn\<lparr> pill_classes :=
                        classList_toggle ''active'' (dataset_theme btn = Some name) (pill_classes btn) \<rparr>)
                     (theme_pills env) \<rparr>)"

text \<open>\<open>localStorage.getItem(THEME_KEY) || DEFAULT_THEME\<close>: \<open>null\<close> and the empty string are falsy.\<close>

definition loadSavedTheme :: "theme_env \<Rightarrow> theme_env" where
  "loadSavedTheme env =
     (let saved = (case localStorage env THEME_KEY of
                     None \<Rightarrow> DEFAULT_THEME
                   | Some v \<Rightarrow> if v = [] then DEFAULT_THEME else v)
      in applyTheme (Some saved) env)"

text \<open>The click listener that \<open>initThemePills\<close> attaches to the \<open>i\<close>-th pill.\<close>

definition pillClick :: "nat \<Rightarrow> theme_env \<Rightarrow> theme_env" where
  "pillClick i env =
     (if i < length (theme_pills env) then applyTheme (dataset_theme (theme_pills env ! i)) env
      else env)"

section \<open>timer.js: data\<close>

definition TOTAL_SECONDS :: int where
  "TOTAL_SECONDS = 25 * 60"

definition DANGER_THRESHOLD :: int where
  "DANGER_THRESHOLD = 60"

datatype timer_state = Idle | Running | Done

text \<open>
  The elements the script binds to. Text contents are strings; the width of the progress
  bar is kept as the percentage itself (the number in front of the \<open>%\<close> sign), as an
  exact rational.
\<close>

record dom =
  display_text :: string
  display_classes :: classList
  status_text :: string
  progress_width :: rat
  progress_background :: string
  hint_html :: string
  btnStart_classes :: classList
  btnStart_disabled :: bool
  btnAbandon_classes :: classList
  overlay_classes :: classList
  card_borderColor :: string
  result_icon :: string
  result_title :: string
  result_message :: string
  r_wins :: string
  r_losses :: string
  r_streak :: string
  stat_wins :: string
  stat_losses :: string
  stat_streak :: string

text \<open>A request handed to \<open>fetch\<close>; \<open>keepalive\<close> is false when the option is left out.\<close>

record request =
  url :: string
  http_method :: string
  keepalive :: bool

record stats =
  wins :: int
  losses :: int
  streak :: int

text \<open>
  How an awaited report ends: \<open>fetch\<close> rejects (network error), \<open>res.json()\<close> rejects
  (the body is not JSON), or the body parses to a stats object.
\<close>

datatype fetch_outcome = NetworkError | InvalidBody | Json stats

text \<open>
  A report whose response has not arrived yet, with the code that runs when it does:
  \<open>reportWin().then(stats => showResult('win', stats))\<close> in \<open>tick\<close>, or the rest of
  \<open>abandonSession\<close> after \<open>await reportLoss(false)\<close>.
\<close>

datatype continuation = AfterWin | AfterLoss

text \<open>
  The module variables of \<open>timer.js\<close>, the page, and the browser state the script acts
  on: the interval handles that are active, the next handle \<open>setInterval\<close> gives out,
  whether \<open>handleBeforeUnload\<close> is registered on \<open>window\<close>, the requests sent so far,
  the lines written by \<open>console.error\<close>, and the reports awaiting a response.
\<close>

record state =
  timerState :: timer_state
  secondsLeft :: int
  intervalId :: "nat option"
  sessionLocked :: bool
  page :: dom
  timers :: "nat list"
  nextHandle :: nat
  unloadGuard :: bool
  requests :: "request list"
  console :: "string list"
  pending :: "continuation list"

text \<open>The \<open>beforeunload\<close> event object, as far as the handler writes to it.\<close>

record unload_event =
  defaultPrevented :: bool
  returnValue :: string

section \<open>timer.js: utilities\<close>

text \<open>
  Decimal rendering of an integer, as \<open>toString()\<close> and string concatenation render an
  integral number; \<open>padStart\<close> pads on the left up to the target length.
\<close>

definition digit_chars :: string where
  "digit_chars = ''0123456789''"

fun nat_toString :: "nat \<Rightarrow> string" where
  "nat_toString n =
     (if n < 10 then [digit_chars ! n]
      else nat_toString (n div 10) @ [digit_chars ! (n mod 10)])"

definition Number_toString :: "int \<Rightarrow> string" where
  "Number_toString i = (if i < 0 then ''-'' @ nat_toString (nat (- i)) else nat_toString (nat i))"

definition padStart :: "nat \<Rightarrow> char \<Rightarrow> string \<Rightarrow> string" where
  "padStart n c s = replicate (n - length s) c @ s"

text \<open>The remainder operator \<open>%\<close> of JavaScript on integers: the sign follows the dividend.\<close>

definition js_rem :: "int \<Rightarrow> int \<Rightarrow> int" where
  "js_rem a b = sgn a * (\<bar>a\<bar> mod \<bar>b\<bar>)"

definition formatTime :: "int \<Rightarrow> string" where
  "formatTime secs =
     (let m = padStart 2 (CHR ''0'') (Number_toString (secs div 60));
          s = padStart 2 (CHR ''0'') (Number_toString (js_rem secs 60))
      in m @ '':'' @ s)"

definition updateProgress :: "state \<Rightarrow> state" where
  "updateProgress s =
     (let pct = (of_int (secondsLeft s) / of_int TOTAL_SECONDS) * 100 in
      s\<lparr> page := (page s)\<lparr>
            progress_width := pct,
            progress_background :=
              (if secondsLeft s \<le> DANGER_THRESHOLD then ''var(--accent-alt)'' else ''var(--accent)'') \<rparr> \<rparr>)"

section \<open>timer.js: browser primitives\<close>

definition fetch :: "request \<Rightarrow> state \<Rightarrow> state" where
  "fetch req s = s\<lparr> requests := requests s @ [req] \<rparr>"

definition console_error :: "string \<Rightarrow> state \<Rightarrow> state" where
  "console_error msg s = s\<lparr> console := console s @ [msg] \<rparr>"

text \<open>\<open>setInterval\<close> hands out a fresh handle and keeps the interval active until it is cleared.\<close>

definition setInterval :: "state \<Rightarrow> nat \<times> state" where
  "setInterval s =
     (nextHandle s, s\<lparr> timers := timers s @ [nextHandle s], nextHandle := Suc (nextHandle s) \<rparr>)"

text \<open>\<open>clearInterval(null)\<close> and clearing a handle that is not active do nothing.\<close>

definition clearInterval :: "nat option \<Rightarrow> state \<Rightarrow> state" where
  "clearInterval h s =
     (case h of None \<Rightarrow> s | Some i \<Rightarrow> s\<lparr> timers := removeAll i (timers s) \<rparr>)"

text \<open>
  Registering \<open>handleBeforeUnload\<close> on \<open>window\<close>: the same function registered twice
  is one listener, and removing an absent listener does nothing.
\<close>

definition addUnloadListener :: "state \<Rightarrow> state" where
  "addUnloadListener s = s\<lparr> unloadGuard := True \<rparr>"

definition removeUnloadListener :: "state \<Rightarrow> state" where
  "removeUnloadListener s = s\<lparr> unloadGuard := False \<rparr>"

section \<open>timer.js: API calls\<close>

definition win_request :: request where
  "win_request = \<lparr> url = ''/api/session/win'', http_method = ''POST'', keepalive = False \<rparr>"

definition loss_request :: "bool \<Rightarrow> request" where
  "loss_request k = \<lparr> url = ''/api/session/loss'', http_method = ''POST'', keepalive = k \<rparr>"

text \<open>
  An \<open>async\<close> function runs up to its first \<open>await\<close> when it is called: the request
  leaves at once. The rest runs when the response arrives: it returns the stats, or logs
  the failure and returns \<open>null\<close> (\<open>None\<close>).
\<close>

definition reportWin_send :: "state \<Rightarrow> state" where
  "reportWin_send s = fetch win_request s"

definition reportWin_resume :: "fetch_outcome \<Rightarrow> state \<Rightarrow> stats option \<times> state" where
  "reportWin_resume outcome s =
     (case outcome of
        Json st \<Rightarrow> (Some st, s)
      | NetworkError \<Rightarrow> (None, console_error ''Failed to report win:'' s)
      | InvalidBody \<Rightarrow> (None, console_error ''Failed to report win:'' s))"

definition reportLoss_send :: "bool \<Rightarrow> state \<Rightarrow> state" where
  "reportLoss_send k s = fetch (loss_request k) s"

definition reportLoss_resume :: "fetch_outcome \<Rightarrow> state \<Rightarrow> stats option \<times> state" where
  "reportLoss_resume outcome s =
     (case outcome of
        Json st \<Rightarrow> (Some st, s)
      | NetworkError \<Rightarrow> (None, console_error ''Failed to report loss:'' s)
      | InvalidBody \<Rightarrow> (None, console_error ''Failed to report loss:'' s))"

section \<open>timer.js: result UI\<close>

text \<open>The pictographs of the script, as their UTF-8 bytes.\<close>

definition TROPHY :: string where
  "TROPHY = [CHR 0xF0, CHR 0x9F, CHR 0x8F, CHR 0x86]"

definition SKULL :: string where
  "SKULL = [CHR 0xF0, CHR 0x9F, CHR 0x92, CHR 0x80]"

definition WARNING_SIGN :: string where
  "WARNING_SIGN = [CHR 0xE2, CHR 0x9A, CHR 0xA0]"

definition FIRE :: string where
  "FIRE = [CHR 0xF0, CHR 0x9F, CHR 0x94, CHR 0xA5]"

definition showResult :: "string \<Rightarrow> stats option \<Rightarrow> state \<Rightarrow> state" where
  "showResult type st s =
     (let p0 = page s;
          p1 = (if type = ''win''
                then p0\<lparr> result_icon := TROPHY,
                         result_title := ''Victory!'',
                         result_message := ''You stayed locked in. Respect.'',
                         card_borderColor := ''var(--accent)'' \<rparr>
                else p0\<lparr> result_icon := SKULL,
                         result_title := ''Defeated.'',
                         result_message := ''You left early. Streak reset. Try again.'',
                         card_borderColor := ''var(--accent-alt)'' \<rparr>);
          p2 = (case st of
                  None \<Rightarrow> p1
                | Some v \<Rightarrow>
                    p1\<lparr> r_wins := Number_toString (wins v),
                        r_losses := Number_toString (losses v),
                        r_streak := Number_toString (streak v),
                        stat_wins := Number_toString (wins v),
                        stat_losses := Number_toString (losses v),
                        stat_streak := Number_toString (streak v) @ FIRE \<rparr>);
          p3 = p2\<lparr> overlay_classes := classList_remove ''hidden'' (overlay_classes p2) \<rparr>
      in s\<lparr> page := p3 \<rparr>)"

section \<open>timer.js: timer core\<close>

definition tick :: "state \<Rightarrow> state" where
  "tick s =
     (let s1 = s\<lparr> secondsLeft := secondsLeft s - 1 \<rparr>;
          s2 = s1\<lparr> page := (page s1)\<lparr> display_text := formatTime (secondsLeft s1) \<rparr> \<rparr>;
          s3 = updateProgress s2;
          s4 = (if secondsLeft s3 \<le> DANGER_THRESHOLD
                then s3\<lparr> page := (page s3)\<lparr>
                           display_classes :=
                             classList_remove ''running'' (classList_add ''danger'' (display_classes (page s3))),
                           status_text := WARNING_SIGN @ '' HOLD THE LINE'' \<rparr> \<rparr>
                else s3)
      in if secondsLeft s4 \<le> 0
         then (let s5 = clearInterval (intervalId s4) s4;
                   s6 = s5\<lparr> sessionLocked := True, timerState := Done \<rparr>;
                   s7 = s6\<lparr> page := (page s6)\<lparr> display_text := ''00:00'',
                                                status_text := ''SESSION COMPLETE'' \<rparr> \<rparr>;
                   s8 = removeUnloadListener s7;
                   s9 = reportWin_send s8
               in s9\<lparr> pending := pending s9 @ [AfterWin] \<rparr>)
         else s4)"

definition startTimer :: "state \<Rightarrow> state" where
  "startTimer s =
     (if timerState s = Running then s
      else (let s1 = s\<lparr> timerState := Running, sessionLocked := False \<rparr>;
                s2 = s1\<lparr> page := (page s1)\<lparr>
                          display_classes :=
                            classList_remove ''danger'' (classList_add ''running'' (display_classes (page s1))),
                          status_text := ''BATTLE IN PROGRESS'',
                          hint_html := ''Stay focused. Don'' @ [CHR 0x27] @ ''t you dare leave.'',
                          btnStart_classes := classList_add ''hidden'' (btnStart_classes (page s1)),
                          btnAbandon_classes := classList_remove ''hidden'' (btnAbandon_classes (page s1)),
                          btnStart_disabled := True \<rparr> \<rparr>;
                (h, s3) = setInterval s2;
                s4 = s3\<lparr> intervalId := Some h \<rparr>
            in addUnloadListener s4))"

definition resetTimer :: "state \<Rightarrow> state" where
  "resetTimer s =
     (let s1 = clearInterval (intervalId s) s;
          s2 = s1\<lparr> secondsLeft := TOTAL_SECONDS, timerState := Idle, sessionLocked := False \<rparr>;
          s3 = s2\<lparr> page := (page s2)\<lparr>
                    display_text := formatTime TOTAL_SECONDS,
                    display_classes :=
                      classList_remove ''danger'' (classList_remove ''running'' (display_classes (page s2))),
                    progress_width := 100,
                    progress_background := ''var(--accent)'',
                    status_text := ''READY TO BATTLE'',
                    hint_html := ''Lock in for 25 minutes. Leave early and you <strong>lose</strong>.'',
                    btnStart_classes := classList_remove ''hidden'' (btnStart_classes (page s2)),
                    btnStart_disabled := False,
                    btnAbandon_classes := classList_add ''hidden'' (btnAbandon_classes (page s2)) \<rparr> \<rparr>
      in removeUnloadListener s3)"

text \<open>
  \<open>abandonSession\<close> up to its \<open>await\<close>: the loss request has left and the rest of the
  function waits for the response.
\<close>

definition abandonSession :: "state \<Rightarrow> state" where
  "abandonSession s =
     (if timerState s \<noteq> Running then s
      else (let s1 = clearInterval (intervalId s) s;
                s2 = s1\<lparr> sessionLocked := True, timerState := Done \<rparr>;
                s3 = removeUnloadListener s2;
                s4 = s3\<lparr> page := (page s3)\<lparr> status_text := ''ABANDONED'' \<rparr> \<rparr>;
                s5 = reportLoss_send False s4
            in s5\<lparr> pending := pending s5 @ [AfterLoss] \<rparr>))"

section \<open>timer.js: early exit detection\<close>

definition handleBeforeUnload :: "unload_event \<Rightarrow> state \<Rightarrow> unload_event \<times> state" where
  "handleBeforeUnload e s =
     (if sessionLocked s \<or> timerState s \<noteq> Running then (e, s)
      else (let s1 = fetch (loss_request True) s;
                e1 = e\<lparr> defaultPrevented := True \<rparr>;
                e2 = e1\<lparr> returnValue := [] \<rparr>
            in (e2, s1)))"

section \<open>Events of the page\<close>

text \<open>
  The script runs only from its listeners: the clicks on the start, abandon and
  battle-again buttons, the firing of an active interval, \<open>beforeunload\<close> on the window,
  and the arrival of the response to the \<open>k\<close>-th report awaited.
\<close>

datatype event =
    ClickStart
  | ClickAbandon
  | ClickAgain
  | IntervalFires
  | BeforeUnload
  | Settle nat fetch_outcome

definition onDOMContentLoaded :: "state \<Rightarrow> state" where
  "onDOMContentLoaded s =
     updateProgress (s\<lparr> page := (page s)\<lparr> display_text := formatTime TOTAL_SECONDS \<rparr> \<rparr>)"

text \<open>The listener of the battle-again button.\<close>

definition onClickAgain :: "state \<Rightarrow> state" where
  "onClickAgain s =
     resetTimer (s\<lparr> page := (page s)\<lparr>
                       overlay_classes := classList_add ''hidden'' (overlay_classes (page s)) \<rparr> \<rparr>)"

text \<open>The code that runs when the response to the \<open>k\<close>-th awaited report arrives.\<close>

definition settle :: "nat \<Rightarrow> fetch_outcome \<Rightarrow> state \<Rightarrow> state" where
  "settle k outcome s =
     (if k < length (pending s)
      then (let s1 = s\<lparr> pending := take k (pending s) @ drop (Suc k) (pending s) \<rparr> in
            case pending s ! k of
              AfterWin \<Rightarrow> (let (st, s2) = reportWin_resume outcome s1 in showResult ''win'' st s2)
            | AfterLoss \<Rightarrow> (let (st, s2) = reportLoss_resume outcome s1 in showResult ''loss'' st s2))
      else s)"

text \<open>A fresh \<open>beforeunload\<close> event, as the browser creates it.\<close>

definition freshUnload :: unload_event where
  "freshUnload = \<lparr> defaultPrevented = False, returnValue = [] \<rparr>"

text \<open>
  Dispatch. A disabled button receives no click; an interval fires only while it is active;
  \<open>beforeunload\<close> reaches the handler only while it is registered.
\<close>

definition step :: "event \<Rightarrow> state \<Rightarrow> state" where
  "step ev s =
     (case ev of
        ClickStart \<Rightarrow> if btnStart_disabled (page s) then s else startTimer s
      | ClickAbandon \<Rightarrow> abandonSession s
      | ClickAgain \<Rightarrow> onClickAgain s
      | IntervalFires \<Rightarrow> if timers s = [] then s else tick s
      | BeforeUnload \<Rightarrow> if unloadGuard s then snd (handleBeforeUnload freshUnload s) else s
      | Settle k outcome \<Rightarrow> settle k outcome s)"

fun run :: "event list \<Rightarrow> state \<Rightarrow> state" where
  "run [] s = s"
| "run (ev # evs) s = run evs (step ev s)"

text \<open>
  The state when the script has been loaded on a page \<open>pg\<close> and \<open>DOMContentLoaded\<close> has
  fired. The page comes from the HTML document, which is a parameter here.
\<close>

definition boot :: "dom \<Rightarrow> state" where
  "boot pg =
     \<lparr> timerState = Idle, secondsLeft = TOTAL_SECONDS, intervalId = None, sessionLocked = False,
       page = pg, timers = [], nextHandle = 1, unloadGuard = False,
       requests = [], console = [], pending = [] \<rparr>"

definition initial :: "dom \<Rightarrow> state" where
  "initial pg = onDOMContentLoaded (boot pg)"

text \<open>A sample document: nothing pressed yet, the abandon button and the overlay hidden.\<close>

definition samplePage :: dom where
  "samplePage =
     \<lparr> display_text = ''25:00'', display_classes = {}, status_text = ''READY TO BATTLE'',
       progress_width = 100, progress_background = ''var(--accent)'',
       hint_html = ''Lock in for 25 minutes. Leave early and you <strong>lose</strong>.'',
       btnStart_classes = {}, btnStart_disabled = False, btnAbandon_classes = {''hidden''},
       overlay_classes = {''hidden''}, card_borderColor = [],
       result_icon = [], result_title = [], result_message = [],
       r_wins = ''0'', r_losses = ''0'', r_streak = ''0'',
       stat_wins = ''0'', stat_losses = ''0'', stat_streak = ''0'' \<rparr>"

definition sampleEnv :: theme_env where
  "sampleEnv =
     \<lparr> app_body = Some {''theme-f1'', ''wide''},
       localStorage = Map.empty,
       theme_pills = [\<lparr> dataset_theme = Some ''theme-lofi'', pill_classes = {} \<rparr>,
                      \<lparr> dataset_theme = Some ''theme-f1'', pill_classes = {''active''} \<rparr>] \<rparr>"

section \<open>Invariant of the reachable states\<close>

text \<open>
  What holds of the module variables and the browser state after any sequence of events:
  the counter stays within bounds, the lock flag is set exactly in state \<open>Done\<close>, the one
  active interval is the one \<open>intervalId\<close> names and it exists exactly while running, the
  unload listener is registered exactly while running, and the start button is enabled
  only in state \<open>Idle\<close>.
\<close>

definition consistent :: "state \<Rightarrow> bool" where
  "consistent s =
     (0 \<le> secondsLeft s \<and> secondsLeft s \<le> TOTAL_SECONDS \<and>
      sessionLocked s = (timerState s = Done) \<and>
      (case timerState s of
         Idle \<Rightarrow> secondsLeft s = TOTAL_SECONDS \<and> timers s = [] \<and> \<not> unloadGuard s
       | Running \<Rightarrow>
           1 \<le> secondsLeft s \<and> btnStart_disabled (page s) \<and> unloadGuard s \<and>
           (case intervalId s of None \<Rightarrow> False | Some h \<Rightarrow> timers s = [h])
       | Done \<Rightarrow> timers s = [] \<and> \<not> unloadGuard s \<and> btnStart_disabled (page s)))"

text \<open>
  Two states that run the same session: they agree on the session variables, on the
  unload listener and on the start button, and the requests of the first are those of the
  second after a fixed history \<open>pre\<close>.
\<close>

definition same_session :: "request list \<Rightarrow> state \<Rightarrow> state \<Rightarrow> bool" where
  "same_session pre a b =
     (consistent a \<and> consistent b \<and>
      timerState a = timerState b \<and> secondsLeft a = secondsLeft b \<and>
      sessionLocked a = sessionLocked b \<and> unloadGuard a = unloadGuard b \<and>
      btnStart_disabled (page a) = btnStart_disabled (page b) \<and>
      requests a = pre @ requests b)"

section \<open>Auxiliary facts\<close>

lemma fold_classList_remove: "fold classList_remove xs body = body - set xs"
  by (induction xs arbitrary: body) (auto simp: classList_remove_def)

lemmas prim_defs = updateProgress_def clearInterval_def removeUnloadListener_def addUnloadListener_def
  reportWin_send_def reportLoss_send_def fetch_def setInterval_def console_error_def
  classList_add_def classList_remove_def DANGER_THRESHOLD_def

lemma tick_secondsLeft: "secondsLeft (tick s) = secondsLeft s - 1"
  by (simp add: tick_def Let_def prim_defs split: option.splits)

lemma tick_frame_page:
  assumes "1 < secondsLeft s"
  shows "tick s = s\<lparr> secondsLeft := secondsLeft s - 1, page := page (tick s) \<rparr>"
  using assms by (simp add: tick_def Let_def prim_defs)

lemma tick_frame:
  assumes "1 < secondsLeft s"
  shows "\<exists>p. tick s = s\<lparr> secondsLeft := secondsLeft s - 1, page := p \<rparr>"
  using tick_frame_page[OF assms] by (rule exI)

lemma tick_final_page:
  assumes "secondsLeft s \<le> 1"
  shows "tick s = s\<lparr> secondsLeft := secondsLeft s - 1, page := page (tick s),
                     timers := (case intervalId s of None \<Rightarrow> timers s | Some h \<Rightarrow> removeAll h (timers s)),
                     sessionLocked := True, timerState := Done, unloadGuard := False,
                     requests := requests s @ [win_request], pending := pending s @ [AfterWin] \<rparr>"
  using assms by (simp add: tick_def Let_def prim_defs split: option.splits)

lemma tick_final:
  assumes "secondsLeft s \<le> 1"
  shows "\<exists>p. tick s = s\<lparr> secondsLeft := secondsLeft s - 1, page := p,
                     timers := (case intervalId s of None \<Rightarrow> timers s | Some h \<Rightarrow> removeAll h (timers s)),
                     sessionLocked := True, timerState := Done, unloadGuard := False,
                     requests := requests s @ [win_request], pending := pending s @ [AfterWin] \<rparr>"
  using tick_final_page[OF assms] by (rule exI)

lemma tick_classes:
  "display_classes (page (tick s)) =
     (if secondsLeft s \<le> 61 then insert ''danger'' (display_classes (page s)) - {''running''}
      else display_classes (page s))"
  by (simp add: tick_def Let_def prim_defs split: option.splits)

lemma tick_disabled: "btnStart_disabled (page (tick s)) = btnStart_disabled (page s)"
  by (simp add: tick_def Let_def prim_defs split: option.splits)

lemma ticks_secondsLeft: "secondsLeft ((tick ^^ n) s) = secondsLeft s - int n"
  by (induction n) (simp_all add: tick_secondsLeft)

lemma ticks_frame:
  "int n < secondsLeft s \<Longrightarrow> \<exists>p. (tick ^^ n) s = s\<lparr> secondsLeft := secondsLeft s - int n, page := p \<rparr>"
proof (induction n)
  case 0
  have "s = s\<lparr> secondsLeft := secondsLeft s - int 0, page := page s \<rparr>" by simp
  then show ?case by (metis funpow_0)
next
  case (Suc n)
  then obtain p where t: "(tick ^^ n) s = s\<lparr> secondsLeft := secondsLeft s - int n, page := p \<rparr>"
    by auto
  have "1 < secondsLeft ((tick ^^ n) s)"
    using Suc.prems by (simp add: ticks_secondsLeft)
  from tick_frame[OF this] obtain p' where
    "tick ((tick ^^ n) s) = ((tick ^^ n) s)\<lparr> secondsLeft := secondsLeft ((tick ^^ n) s) - 1, page := p' \<rparr>"
    by blast
  then have "(tick ^^ Suc n) s = s\<lparr> secondsLeft := secondsLeft s - int (Suc n), page := p' \<rparr>"
    by (simp add: t)
  then show ?case by blast
qed

lemma ticks_classes:
  "display_classes (page ((tick ^^ n) s)) =
     (if 0 < n \<and> secondsLeft s - int n \<le> 60
      then insert ''danger'' (display_classes (page s)) - {''running''}
      else display_classes (page s))"
proof (induction n)
  case 0
  show ?case by simp
next
  case (Suc n)
  show ?case
    by (auto simp: tick_classes ticks_secondsLeft Suc)
qed

lemma run_append: "run (xs @ ys) s = run ys (run xs s)"
  by (induction xs arbitrary: s) simp_all

lemma run_ticks:
  "timers s \<noteq> [] \<Longrightarrow> int n \<le> secondsLeft s \<Longrightarrow> run (replicate n IntervalFires) s = (tick ^^ n) s"
proof (induction n arbitrary: s)
  case 0
  show ?case by simp
next
  case (Suc n)
  have st: "step IntervalFires s = tick s" using Suc.prems by (simp add: step_def)
  show ?case
  proof (cases n)
    case 0
    then show ?thesis by (simp add: st)
  next
    case (Suc m)
    then have "1 < secondsLeft s" using Suc.prems \<open>int (Suc n) \<le> secondsLeft s\<close> by simp
    from tick_frame[OF this] obtain p where p: "tick s = s\<lparr> secondsLeft := secondsLeft s - 1, page := p \<rparr>"
      by blast
    have "timers (tick s) \<noteq> []" using Suc.prems \<open>timers s \<noteq> []\<close> by (simp add: p)
    moreover have "int n \<le> secondsLeft (tick s)" using \<open>int (Suc n) \<le> secondsLeft s\<close> by (simp add: tick_secondsLeft)
    ultimately have "run (replicate n IntervalFires) (tick s) = (tick ^^ n) (tick s)"
      by (rule Suc.IH)
    then show ?thesis by (simp add: st funpow_swap1)
  qed
qed

lemma startTimer_frame_page:
  assumes "timerState s \<noteq> Running"
  shows "startTimer s =
           s\<lparr> timerState := Running, sessionLocked := False, page := page (startTimer s),
              timers := timers s @ [nextHandle s], nextHandle := Suc (nextHandle s),
              intervalId := Some (nextHandle s), unloadGuard := True \<rparr>"
  using assms by (simp add: startTimer_def Let_def prim_defs)

lemma startTimer_disabled:
  "timerState s \<noteq> Running \<Longrightarrow> btnStart_disabled (page (startTimer s))"
  by (simp add: startTimer_def Let_def prim_defs)

lemma startTimer_frame:
  assumes "timerState s \<noteq> Running"
  shows "\<exists>p. btnStart_disabled p \<and> startTimer s =
           s\<lparr> timerState := Running, sessionLocked := False, page := p,
              timers := timers s @ [nextHandle s], nextHandle := Suc (nextHandle s),
              intervalId := Some (nextHandle s), unloadGuard := True \<rparr>"
  using startTimer_disabled[OF assms] startTimer_frame_page[OF assms] by blast

lemma resetTimer_frame_page:
  "resetTimer s =
     s\<lparr> timers := (case intervalId s of None \<Rightarrow> timers s | Some h \<Rightarrow> removeAll h (timers s)),
        secondsLeft := TOTAL_SECONDS, timerState := Idle, sessionLocked := False,
        page := page (resetTimer s), unloadGuard := False \<rparr>"
  by (simp add: resetTimer_def Let_def prim_defs split: option.splits)

lemma resetTimer_disabled: "\<not> btnStart_disabled (page (resetTimer s))"
  by (simp add: resetTimer_def Let_def prim_defs split: option.splits)

lemma resetTimer_frame:
  "\<exists>p. \<not> btnStart_disabled p \<and> resetTimer s =
     s\<lparr> timers := (case intervalId s of None \<Rightarrow> timers s | Some h \<Rightarrow> removeAll h (timers s)),
        secondsLeft := TOTAL_SECONDS, timerState := Idle, sessionLocked := False,
        page := p, unloadGuard := False \<rparr>"
  using resetTimer_disabled resetTimer_frame_page by blast

lemma onClickAgain_frame_page:
  "onClickAgain s =
     s\<lparr> timers := (case intervalId s of None \<Rightarrow> timers s | Some h \<Rightarrow> removeAll h (timers s)),
        secondsLeft := TOTAL_SECONDS, timerState := Idle, sessionLocked := False,
        page := page (onClickAgain s), unloadGuard := False \<rparr>"
  by (simp add: onClickAgain_def resetTimer_def Let_def prim_defs split: option.splits)

lemma onClickAgain_disabled: "\<not> btnStart_disabled (page (onClickAgain s))"
  by (simp add: onClickAgain_def resetTimer_disabled)

lemma onClickAgain_frame:
  "\<exists>p. \<not> btnStart_disabled p \<and> onClickAgain s =
     s\<lparr> timers := (case intervalId s of None \<Rightarrow> timers s | Some h \<Rightarrow> removeAll h (timers s)),
        secondsLeft := TOTAL_SECONDS, timerState := Idle, sessionLocked := False,
        page := p, unloadGuard := False \<rparr>"
  using onClickAgain_disabled onClickAgain_frame_page by blast

lemma abandonSession_frame:
  assumes "timerState s = Running"
  shows "abandonSession s =
           s\<lparr> timers := (case intervalId s of None \<Rightarrow> timers s | Some h \<Rightarrow> removeAll h (timers s)),
              sessionLocked := True, timerState := Done, unloadGuard := False,
              page := (page s)\<lparr> status_text := ''ABANDONED'' \<rparr>,
              requests := requests s @ [loss_request False],
              pending := pending s @ [AfterLoss] \<rparr>"
  using assms by (simp add: abandonSession_def Let_def prim_defs split: option.splits)

lemma abandonSession_idle: "timerState s \<noteq> Running \<Longrightarrow> abandonSession s = s"
  by (simp add: abandonSession_def)

lemma handleBeforeUnload_active:
  assumes "timerState s = Running" and "\<not> sessionLocked s"
  shows "handleBeforeUnload e s =
           (e\<lparr> defaultPrevented := True, returnValue := [] \<rparr>,
            s\<lparr> requests := requests s @ [loss_request True] \<rparr>)"
  using assms by (simp add: handleBeforeUnload_def Let_def prim_defs)

lemma handleBeforeUnload_inactive:
  assumes "sessionLocked s \<or> timerState s \<noteq> Running"
  shows "handleBeforeUnload e s = (e, s)"
  using assms by (simp add: handleBeforeUnload_def)

lemma showResult_frame: "showResult ty st s = s\<lparr> page := page (showResult ty st s) \<rparr>"
  by (simp add: showResult_def Let_def)

lemma showResult_disabled:
  "btnStart_disabled (page (showResult ty st s)) = btnStart_disabled (page s)"
  by (simp add: showResult_def Let_def split: option.splits)

lemma settle_frame_page:
  "settle k outcome s =
     s\<lparr> page := page (settle k outcome s), console := console (settle k outcome s),
        pending := pending (settle k outcome s) \<rparr>"
  by (simp add: settle_def showResult_def reportWin_resume_def reportLoss_resume_def Let_def prim_defs
      split: continuation.splits fetch_outcome.splits option.splits)

lemma settle_disabled:
  "btnStart_disabled (page (settle k outcome s)) = btnStart_disabled (page s)"
  by (simp add: settle_def showResult_def reportWin_resume_def reportLoss_resume_def Let_def prim_defs
      split: continuation.splits fetch_outcome.splits option.splits)

lemma settle_frame:
  "\<exists>p c q. btnStart_disabled p = btnStart_disabled (page s) \<and>
     settle k outcome s = s\<lparr> page := p, console := c, pending := q \<rparr>"
  using settle_disabled settle_frame_page by blast

lemma tick_frame_disabled:
  assumes "1 < secondsLeft s"
  shows "\<exists>p. btnStart_disabled p = btnStart_disabled (page s) \<and>
             tick s = s\<lparr> secondsLeft := secondsLeft s - 1, page := p \<rparr>"
  using tick_disabled tick_frame_page[OF assms] by blast

lemma tick_final_disabled:
  assumes "secondsLeft s \<le> 1"
  shows "\<exists>p. btnStart_disabled p = btnStart_disabled (page s) \<and>
             tick s = s\<lparr> secondsLeft := secondsLeft s - 1, page := p,
                     timers := (case intervalId s of None \<Rightarrow> timers s | Some h \<Rightarrow> removeAll h (timers s)),
                     sessionLocked := True, timerState := Done, unloadGuard := False,
                     requests := requests s @ [win_request], pending := pending s @ [AfterWin] \<rparr>"
  using tick_disabled tick_final_page[OF assms] by blast

lemma consistent_startTimer:
  assumes "consistent s" and "\<not> btnStart_disabled (page s)"
  shows "consistent (startTimer s)"
proof -
  have idle: "timerState s = Idle" and full: "secondsLeft s = TOTAL_SECONDS" and none: "timers s = []"
    using assms by (auto simp: consistent_def split: timer_state.splits)
  then have "timerState s \<noteq> Running" by simp
  from startTimer_frame[OF this] obtain p where "btnStart_disabled p" and
    "startTimer s = s\<lparr> timerState := Running, sessionLocked := False, page := p,
              timers := timers s @ [nextHandle s], nextHandle := Suc (nextHandle s),
              intervalId := Some (nextHandle s), unloadGuard := True \<rparr>" by blast
  then show ?thesis
    by (simp add: consistent_def full none TOTAL_SECONDS_def)
qed

lemma consistent_cleared:
  assumes "consistent s"
  shows "(case intervalId s of None \<Rightarrow> timers s | Some h \<Rightarrow> removeAll h (timers s)) = []"
  using assms by (cases "timerState s") (auto simp: consistent_def split: option.splits)

lemma consistent_running:
  assumes "consistent s" and "timers s \<noteq> []"
  shows "timerState s = Running \<and> 1 \<le> secondsLeft s \<and> secondsLeft s \<le> TOTAL_SECONDS \<and>
         \<not> sessionLocked s \<and> unloadGuard s \<and> btnStart_disabled (page s)"
  using assms by (cases "timerState s") (auto simp: consistent_def)

lemma consistent_onClickAgain:
  assumes "consistent s"
  shows "consistent (onClickAgain s)"
proof -
  from onClickAgain_frame[of s] obtain p where
    "onClickAgain s =
     s\<lparr> timers := (case intervalId s of None \<Rightarrow> timers s | Some h \<Rightarrow> removeAll h (timers s)),
        secondsLeft := TOTAL_SECONDS, timerState := Idle, sessionLocked := False,
        page := p, unloadGuard := False \<rparr>" by blast
  then show ?thesis
    by (simp add: consistent_def consistent_cleared[OF assms] TOTAL_SECONDS_def)
qed

lemma consistent_abandonSession:
  assumes "consistent s"
  shows "consistent (abandonSession s)"
proof (cases "timerState s = Running")
  case True
  have "btnStart_disabled (page s)" using assms True by (simp add: consistent_def)
  moreover have "0 \<le> secondsLeft s \<and> secondsLeft s \<le> TOTAL_SECONDS"
    using assms by (simp add: consistent_def)
  ultimately show ?thesis
    by (simp add: abandonSession_frame[OF True] consistent_def consistent_cleared[OF assms])
next
  case False
  then show ?thesis using assms by (simp add: abandonSession_idle)
qed

lemma consistent_tick:
  assumes "consistent s" and "timers s \<noteq> []"
  shows "consistent (tick s)"
proof -
  note r = consistent_running[OF assms]
  have iv: "case intervalId s of None \<Rightarrow> False | Some h \<Rightarrow> timers s = [h]"
    using assms(1) r by (simp add: consistent_def)
  show ?thesis
  proof (cases "1 < secondsLeft s")
    case True
    from tick_frame_disabled[OF True] obtain p where
      "btnStart_disabled p = btnStart_disabled (page s)" and
      "tick s = s\<lparr> secondsLeft := secondsLeft s - 1, page := p \<rparr>" by blast
    then show ?thesis using r iv True by (simp add: consistent_def split: option.splits)
  next
    case False
    then have le: "secondsLeft s \<le> 1" by simp
    from tick_final_disabled[OF le] obtain p where
      "btnStart_disabled p = btnStart_disabled (page s)" and
      "tick s = s\<lparr> secondsLeft := secondsLeft s - 1, page := p,
                     timers := (case intervalId s of None \<Rightarrow> timers s | Some h \<Rightarrow> removeAll h (timers s)),
                     sessionLocked := True, timerState := Done, unloadGuard := False,
                     requests := requests s @ [win_request], pending := pending s @ [AfterWin] \<rparr>" by blast
    then show ?thesis using r le
      by (simp add: consistent_def consistent_cleared[OF assms(1)])
  qed
qed

lemma consistent_handleBeforeUnload:
  assumes "consistent s"
  shows "consistent (snd (handleBeforeUnload e s))"
proof (cases "sessionLocked s \<or> timerState s \<noteq> Running")
  case True
  then show ?thesis using assms by (simp add: handleBeforeUnload_inactive)
next
  case False
  then show ?thesis using assms by (simp add: handleBeforeUnload_active consistent_def split: option.splits)
qed

lemma consistent_settle:
  assumes "consistent s"
  shows "consistent (settle k outcome s)"
proof -
  from settle_frame[of s k outcome] obtain p c q where
    "btnStart_disabled p = btnStart_disabled (page s)" and
    "settle k outcome s = s\<lparr> page := p, console := c, pending := q \<rparr>" by blast
  then show ?thesis using assms
    by (simp add: consistent_def split: timer_state.splits option.splits)
qed

lemma consistent_step:
  assumes "consistent s"
  shows "consistent (step ev s)"
  using assms
  by (cases ev)
     (simp_all add: step_def consistent_startTimer consistent_abandonSession consistent_onClickAgain
        consistent_tick consistent_handleBeforeUnload consistent_settle)

lemma consistent_initial: "consistent (initial pg)"
  by (simp add: consistent_def initial_def boot_def onDOMContentLoaded_def prim_defs TOTAL_SECONDS_def)

lemma consistent_run: "consistent s \<Longrightarrow> consistent (run es s)"
  by (induction es arbitrary: s) (simp_all add: consistent_step)

lemma consistent_reachable: "consistent (run es (initial pg))"
  by (rule consistent_run[OF consistent_initial])

lemma initial_sample_fields:
  "timerState (initial samplePage) = Idle"
  "secondsLeft (initial samplePage) = 1500"
  "\<not> sessionLocked (initial samplePage)"
  "\<not> btnStart_disabled (page (initial samplePage))"
  "timers (initial samplePage) = []"
  "requests (initial samplePage) = []"
  "\<not> unloadGuard (initial samplePage)"
  by (simp_all add: initial_def boot_def onDOMContentLoaded_def updateProgress_def samplePage_def
      TOTAL_SECONDS_def)

section \<open>The unload handler outside a running session\<close>

text \<open>
  C10. When \<open>handleBeforeUnload\<close> fires while the lock flag is set, or while the state is
  idle or done, it returns at once: the event object is untouched (no \<open>preventDefault\<close>,
  so no confirm-leave prompt), no request is sent and the state is the one before.
\<close>

theorem handleBeforeUnload_returns_early:
  assumes "sessionLocked s \<or> timerState s = Idle \<or> timerState s = Done"
  shows "handleBeforeUnload e s = (e, s) \<and>
         requests (snd (handleBeforeUnload e s)) = requests s \<and>
         defaultPrevented (fst (handleBeforeUnload e s)) = defaultPrevented e"
proof -
  have "sessionLocked s \<or> timerState s \<noteq> Running" using assms by auto
  then have "handleBeforeUnload e s = (e, s)" by (rule handleBeforeUnload_inactive)
  then show ?thesis by simp
qed

theorem handleBeforeUnload_returns_early_witness:
  "timerState (initial samplePage) = Idle \<and>
   handleBeforeUnload freshUnload (initial samplePage) = (freshUnload, initial samplePage) \<and>
   \<not> defaultPrevented (fst (handleBeforeUnload freshUnload (initial samplePage)))"
proof -
  have idle: "timerState (initial samplePage) = Idle" by (rule initial_sample_fields)
  then have "sessionLocked (initial samplePage) \<or> timerState (initial samplePage) = Idle \<or>
             timerState (initial samplePage) = Done" by simp
  from handleBeforeUnload_returns_early[OF this, of freshUnload] idle
  show ?thesis by (simp add: freshUnload_def)
qed

section \<open>Starting twice\<close>

text \<open>
  C8. \<open>startTimer\<close> called while the state is running returns the state as it is: the
  counter, the state, the lock flag and the interval handle keep their values and no
  second interval is created. The same holds for a click on the start button.
\<close>

theorem startTimer_while_running:
  assumes "timerState s = Running"
  shows "startTimer s = s \<and> step ClickStart s = s \<and>
         secondsLeft (startTimer s) = secondsLeft s \<and> timerState (startTimer s) = Running \<and>
         sessionLocked (startTimer s) = sessionLocked s \<and>
         intervalId (startTimer s) = intervalId s \<and> timers (startTimer s) = timers s"
  using assms by (simp add: startTimer_def step_def)

theorem startTimer_while_running_witness:
  "timerState (startTimer (initial samplePage)) = Running \<and>
   startTimer (startTimer (initial samplePage)) = startTimer (initial samplePage) \<and>
   timers (startTimer (startTimer (initial samplePage))) = [1]"
proof -
  have ne: "timerState (initial samplePage) \<noteq> Running" by (simp add: initial_sample_fields)
  from startTimer_frame[OF ne] obtain p where
    eq: "startTimer (initial samplePage) =
           (initial samplePage)\<lparr> timerState := Running, sessionLocked := False, page := p,
              timers := timers (initial samplePage) @ [nextHandle (initial samplePage)],
              nextHandle := Suc (nextHandle (initial samplePage)),
              intervalId := Some (nextHandle (initial samplePage)), unloadGuard := True \<rparr>"
    by blast
  have run: "timerState (startTimer (initial samplePage)) = Running" by (simp add: eq)
  have t: "timers (startTimer (initial samplePage)) = [1]"
    by (simp add: eq initial_sample_fields) (simp add: initial_def boot_def onDOMContentLoaded_def updateProgress_def)
  from startTimer_while_running[OF run] run t show ?thesis by simp
qed

lemma normalizeTheme_invalid: "t \<notin> set VALID_THEMES \<Longrightarrow> normalizeTheme (Some t) = DEFAULT_THEME"
  by (simp add: normalizeTheme_def)

lemma normalizeTheme_default: "normalizeTheme (Some DEFAULT_THEME) = DEFAULT_THEME"
  by (simp add: normalizeTheme_def)

lemma applyTheme_body:
  assumes "app_body env = Some body"
  shows "app_body (applyTheme themeName env) =
           Some (insert (normalizeTheme themeName) (body - set VALID_THEMES))"
    and "localStorage (applyTheme themeName env) THEME_KEY = Some (normalizeTheme themeName)"
  using assms by (simp_all add: applyTheme_def Let_def fold_classList_remove classList_add_def)

lemma DEFAULT_THEME_valid: "DEFAULT_THEME \<in> set VALID_THEMES"
  by (simp add: DEFAULT_THEME_def VALID_THEMES_def)

section \<open>Invalid theme names\<close>

text \<open>
  C5. For every string outside \<open>VALID_THEMES\<close>, \<open>applyTheme\<close> does what it does for the
  default theme: on a page that has the root element \<open>app-body\<close>, the class list of that
  element afterwards holds \<open>theme-lofi\<close> and no other theme class (its other classes are
  kept), and \<open>theme-lofi\<close> is stored under the theme key of \<open>localStorage\<close>.
\<close>

theorem applyTheme_invalid_name:
  assumes "t \<notin> set VALID_THEMES" and "app_body env = Some body"
  shows "applyTheme (Some t) env = applyTheme (Some DEFAULT_THEME) env \<and>
         app_body (applyTheme (Some t) env) = Some (insert ''theme-lofi'' (body - set VALID_THEMES)) \<and>
         insert ''theme-lofi'' (body - set VALID_THEMES) \<inter> set VALID_THEMES = {''theme-lofi''} \<and>
         localStorage (applyTheme (Some t) env) THEME_KEY = Some ''theme-lofi''"
proof -
  have n: "normalizeTheme (Some t) = DEFAULT_THEME"
    using assms(1) by (rule normalizeTheme_invalid)
  have same: "applyTheme (Some t) env = applyTheme (Some DEFAULT_THEME) env"
    by (simp add: applyTheme_def n normalizeTheme_default)
  have marker: "insert ''theme-lofi'' (body - set VALID_THEMES) \<inter> set VALID_THEMES = {''theme-lofi''}"
    using DEFAULT_THEME_valid by (auto simp: DEFAULT_THEME_def)
  show ?thesis
    using same marker applyTheme_body[OF assms(2), of "Some t"]
    by (simp add: n) (simp add: DEFAULT_THEME_def)
qed

theorem applyTheme_invalid_name_witness:
  "''theme-neon'' \<notin> set VALID_THEMES \<and>
   app_body (applyTheme (Some ''theme-neon'') sampleEnv) = Some {''theme-lofi'', ''wide''} \<and>
   localStorage (applyTheme (Some ''theme-neon'') sampleEnv) THEME_KEY = Some ''theme-lofi''"
proof -
  have inv: "''theme-neon'' \<notin> set VALID_THEMES" by (simp add: VALID_THEMES_def)
  have body: "app_body sampleEnv = Some {''theme-f1'', ''wide''}" by (simp add: sampleEnv_def)
  have cls: "insert ''theme-lofi'' ({''theme-f1'', ''wide''} - set VALID_THEMES) = {''theme-lofi'', ''wide''}"
    by (auto simp: VALID_THEMES_def)
  note th = applyTheme_invalid_name[OF inv body]
  have "app_body (applyTheme (Some ''theme-neon'') sampleEnv) =
          Some (insert ''theme-lofi'' ({''theme-f1'', ''wide''} - set VALID_THEMES))"
    using th by blast
  moreover have "localStorage (applyTheme (Some ''theme-neon'') sampleEnv) THEME_KEY = Some ''theme-lofi''"
    using th by blast
  ultimately show ?thesis using inv cls by simp
qed

lemma tick_final_explicit:
  assumes "secondsLeft s \<le> 1"
  shows "tick s =
           s\<lparr> secondsLeft := secondsLeft s - 1,
              page := (page s)\<lparr>
                display_text := ''00:00'',
                progress_width := (of_int (secondsLeft s - 1) / of_int TOTAL_SECONDS) * 100,
                progress_background := ''var(--accent-alt)'',
                display_classes := insert ''danger'' (display_classes (page s)) - {''running''},
                status_text := ''SESSION COMPLETE'' \<rparr>,
              timers := (case intervalId s of None \<Rightarrow> timers s | Some h \<Rightarrow> removeAll h (timers s)),
              sessionLocked := True, timerState := Done, unloadGuard := False,
              requests := requests s @ [win_request], pending := pending s @ [AfterWin] \<rparr>"
  using assms by (simp add: tick_def Let_def prim_defs split: option.splits)

lemma settle_last_failed:
  assumes "pending t = q @ [c]"
  shows "settle (length q) NetworkError t =
     t\<lparr> pending := q,
        console := console t @ [if c = AfterWin then ''Failed to report win:'' else ''Failed to report loss:''],
        page := (if c = AfterWin
                 then (page t)\<lparr> result_icon := TROPHY, result_title := ''Victory!'',
                         result_message := ''You stayed locked in. Respect.'',
                         card_borderColor := ''var(--accent)'',
                         overlay_classes := overlay_classes (page t) - {''hidden''} \<rparr>
                 else (page t)\<lparr> result_icon := SKULL, result_title := ''Defeated.'',
                         result_message := ''You left early. Streak reset. Try again.'',
                         card_borderColor := ''var(--accent-alt)'',
                         overlay_classes := overlay_classes (page t) - {''hidden''} \<rparr>) \<rparr>"
  by (cases c)
     (simp_all add: assms settle_def showResult_def reportWin_resume_def reportLoss_resume_def Let_def
        console_error_def classList_remove_def)

lemma started_sample_fields:
  "timerState (startTimer (initial samplePage)) = Running"
  "secondsLeft (startTimer (initial samplePage)) = 1500"
  "\<not> sessionLocked (startTimer (initial samplePage))"
  "btnStart_disabled (page (startTimer (initial samplePage)))"
  "timers (startTimer (initial samplePage)) = [1]"
  "intervalId (startTimer (initial samplePage)) = Some 1"
  "unloadGuard (startTimer (initial samplePage))"
  "requests (startTimer (initial samplePage)) = []"
  "pending (startTimer (initial samplePage)) = []"
  "console (startTimer (initial samplePage)) = []"
  by (simp_all add: startTimer_def Let_def prim_defs initial_def boot_def onDOMContentLoaded_def
      samplePage_def TOTAL_SECONDS_def)

lemma last_second_sample_fields:
  "timerState ((tick ^^ 1499) (startTimer (initial samplePage))) = Running"
  "secondsLeft ((tick ^^ 1499) (startTimer (initial samplePage))) = 1"
  "requests ((tick ^^ 1499) (startTimer (initial samplePage))) = []"
  "pending ((tick ^^ 1499) (startTimer (initial samplePage))) = []"
  "console ((tick ^^ 1499) (startTimer (initial samplePage))) = []"
  "timers ((tick ^^ 1499) (startTimer (initial samplePage))) = [1]"
  "unloadGuard ((tick ^^ 1499) (startTimer (initial samplePage)))"
proof -
  have "int 1499 < secondsLeft (startTimer (initial samplePage))"
    by (simp add: started_sample_fields)
  from ticks_frame[OF this] obtain p where
    eq: "(tick ^^ 1499) (startTimer (initial samplePage)) =
           (startTimer (initial samplePage))\<lparr> secondsLeft := secondsLeft (startTimer (initial samplePage)) - int 1499,
              page := p \<rparr>" by blast
  show "timerState ((tick ^^ 1499) (startTimer (initial samplePage))) = Running"
    and "secondsLeft ((tick ^^ 1499) (startTimer (initial samplePage))) = 1"
    and "requests ((tick ^^ 1499) (startTimer (initial samplePage))) = []"
    and "pending ((tick ^^ 1499) (startTimer (initial samplePage))) = []"
    and "console ((tick ^^ 1499) (startTimer (initial samplePage))) = []"
    and "timers ((tick ^^ 1499) (startTimer (initial samplePage))) = [1]"
    and "unloadGuard ((tick ^^ 1499) (startTimer (initial samplePage)))"
    by (simp_all add: eq started_sample_fields)
qed

section \<open>A report that fails\<close>

text \<open>
  C6. When a report fails with a network error, the awaiting function logs the failure
  and returns \<open>null\<close> instead of raising. The transition that sent the report is complete
  all the same: after an abandon, and after the last tick, the state is done whatever the
  response. When the failure arrives the result overlay is shown, with the headline of
  the outcome, and the six counters on the page keep the values they had.
\<close>

theorem failed_report_is_absorbed:
  assumes "timerState s = Running"
  shows "reportWin_resume NetworkError s = (None, s\<lparr> console := console s @ [''Failed to report win:''] \<rparr>) \<and>
         reportLoss_resume NetworkError s = (None, s\<lparr> console := console s @ [''Failed to report loss:''] \<rparr>) \<and>
         (let a = settle (length (pending s)) NetworkError (abandonSession s) in
            timerState (abandonSession s) = Done \<and> timerState a = Done \<and>
            ''hidden'' \<notin> overlay_classes (page a) \<and> result_title (page a) = ''Defeated.'' \<and>
            r_wins (page a) = r_wins (page s) \<and> r_losses (page a) = r_losses (page s) \<and>
            r_streak (page a) = r_streak (page s) \<and> stat_wins (page a) = stat_wins (page s) \<and>
            stat_losses (page a) = stat_losses (page s) \<and> stat_streak (page a) = stat_streak (page s) \<and>
            console a = console s @ [''Failed to report loss:''] \<and> requests a = requests s @ [loss_request False]) \<and>
         (secondsLeft s \<le> 1 \<longrightarrow>
           (let w = settle (length (pending s)) NetworkError (tick s) in
            timerState (tick s) = Done \<and> timerState w = Done \<and>
            ''hidden'' \<notin> overlay_classes (page w) \<and> result_title (page w) = ''Victory!'' \<and>
            r_wins (page w) = r_wins (page s) \<and> r_losses (page w) = r_losses (page s) \<and>
            r_streak (page w) = r_streak (page s) \<and> stat_wins (page w) = stat_wins (page s) \<and>
            stat_losses (page w) = stat_losses (page s) \<and> stat_streak (page w) = stat_streak (page s) \<and>
            console w = console s @ [''Failed to report win:''] \<and> requests w = requests s @ [win_request]))"
proof -
  have win: "reportWin_resume NetworkError s = (None, s\<lparr> console := console s @ [''Failed to report win:''] \<rparr>)"
    by (simp add: reportWin_resume_def console_error_def)
  have loss: "reportLoss_resume NetworkError s = (None, s\<lparr> console := console s @ [''Failed to report loss:''] \<rparr>)"
    by (simp add: reportLoss_resume_def console_error_def)
  have pa: "pending (abandonSession s) = pending s @ [AfterLoss]"
    by (simp add: abandonSession_frame[OF assms])
  have abandon: "let a = settle (length (pending s)) NetworkError (abandonSession s) in
            timerState (abandonSession s) = Done \<and> timerState a = Done \<and>
            ''hidden'' \<notin> overlay_classes (page a) \<and> result_title (page a) = ''Defeated.'' \<and>
            r_wins (page a) = r_wins (page s) \<and> r_losses (page a) = r_losses (page s) \<and>
            r_streak (page a) = r_streak (page s) \<and> stat_wins (page a) = stat_wins (page s) \<and>
            stat_losses (page a) = stat_losses (page s) \<and> stat_streak (page a) = stat_streak (page s) \<and>
            console a = console s @ [''Failed to report loss:''] \<and> requests a = requests s @ [loss_request False]"
    by (simp add: settle_last_failed[OF pa] Let_def) (simp add: abandonSession_frame[OF assms])
  have complete: "let w = settle (length (pending s)) NetworkError (tick s) in
            timerState (tick s) = Done \<and> timerState w = Done \<and>
            ''hidden'' \<notin> overlay_classes (page w) \<and> result_title (page w) = ''Victory!'' \<and>
            r_wins (page w) = r_wins (page s) \<and> r_losses (page w) = r_losses (page s) \<and>
            r_streak (page w) = r_streak (page s) \<and> stat_wins (page w) = stat_wins (page s) \<and>
            stat_losses (page w) = stat_losses (page s) \<and> stat_streak (page w) = stat_streak (page s) \<and>
            console w = console s @ [''Failed to report win:''] \<and> requests w = requests s @ [win_request]"
    if le: "secondsLeft s \<le> 1"
  proof -
    have pw: "pending (tick s) = pending s @ [AfterWin]"
      by (simp add: tick_final_explicit[OF le])
    show ?thesis
      by (simp add: settle_last_failed[OF pw] Let_def) (simp add: tick_final_explicit[OF le])
  qed
  from win loss abandon complete show ?thesis by blast
qed

theorem failed_report_is_absorbed_witness:
  "timerState ((tick ^^ 1499) (startTimer (initial samplePage))) = Running \<and>
   secondsLeft ((tick ^^ 1499) (startTimer (initial samplePage))) \<le> 1 \<and>
   timerState (settle 0 NetworkError ((tick ^^ 1500) (startTimer (initial samplePage)))) = Done \<and>
   ''hidden'' \<notin> overlay_classes (page (settle 0 NetworkError ((tick ^^ 1500) (startTimer (initial samplePage))))) \<and>
   console (settle 0 NetworkError ((tick ^^ 1500) (startTimer (initial samplePage)))) = [''Failed to report win:'']"
proof -
  let ?s = "(tick ^^ 1499) (startTimer (initial samplePage))"
  have r: "timerState ?s = Running" and le: "secondsLeft ?s \<le> 1"
    by (simp_all add: last_second_sample_fields)
  have next_tick: "(tick ^^ 1500) (startTimer (initial samplePage)) = tick ?s"
  proof -
    have "(1500::nat) = Suc 1499" by simp
    then show ?thesis by (simp only: funpow.simps o_apply)
  qed
  from failed_report_is_absorbed[OF r] le
  have "let w = settle (length (pending ?s)) NetworkError (tick ?s) in
            timerState (tick ?s) = Done \<and> timerState w = Done \<and>
            ''hidden'' \<notin> overlay_classes (page w) \<and> result_title (page w) = ''Victory!'' \<and>
            r_wins (page w) = r_wins (page ?s) \<and> r_losses (page w) = r_losses (page ?s) \<and>
            r_streak (page w) = r_streak (page ?s) \<and> stat_wins (page w) = stat_wins (page ?s) \<and>
            stat_losses (page w) = stat_losses (page ?s) \<and> stat_streak (page w) = stat_streak (page ?s) \<and>
            console w = console ?s @ [''Failed to report win:''] \<and> requests w = requests ?s @ [win_request]"
    by blast
  then show ?thesis
    using r le by (simp add: Let_def next_tick last_second_sample_fields)
qed

lemma ticks_last:
  assumes "secondsLeft s = int (Suc n)"
  shows "\<exists>p. (tick ^^ Suc n) s =
           s\<lparr> secondsLeft := 0, page := p,
              timers := (case intervalId s of None \<Rightarrow> timers s | Some h \<Rightarrow> removeAll h (timers s)),
              sessionLocked := True, timerState := Done, unloadGuard := False,
              requests := requests s @ [win_request], pending := pending s @ [AfterWin] \<rparr>"
proof -
  have "int n < secondsLeft s" using assms by simp
  from ticks_frame[OF this] obtain p where
    t: "(tick ^^ n) s = s\<lparr> secondsLeft := secondsLeft s - int n, page := p \<rparr>" by blast
  have "secondsLeft ((tick ^^ n) s) \<le> 1" using assms by (simp add: ticks_secondsLeft)
  from tick_final[OF this] obtain p' where
    "tick ((tick ^^ n) s) = ((tick ^^ n) s)\<lparr> secondsLeft := secondsLeft ((tick ^^ n) s) - 1, page := p',
        timers := (case intervalId ((tick ^^ n) s) of None \<Rightarrow> timers ((tick ^^ n) s)
                   | Some h \<Rightarrow> removeAll h (timers ((tick ^^ n) s))),
        sessionLocked := True, timerState := Done, unloadGuard := False,
        requests := requests ((tick ^^ n) s) @ [win_request],
        pending := pending ((tick ^^ n) s) @ [AfterWin] \<rparr>" by blast
  then have "(tick ^^ Suc n) s =
           s\<lparr> secondsLeft := 0, page := p',
              timers := (case intervalId s of None \<Rightarrow> timers s | Some h \<Rightarrow> removeAll h (timers s)),
              sessionLocked := True, timerState := Done, unloadGuard := False,
              requests := requests s @ [win_request], pending := pending s @ [AfterWin] \<rparr>"
    using assms by (simp add: t split: option.splits)
  then show ?thesis by blast
qed

section \<open>Natural completion\<close>

text \<open>
  C3. From a fresh session (state running, \<open>secondsLeft = TOTAL_SECONDS = 1500\<close>), every
  run of fewer than 1500 calls of \<open>tick\<close> leaves the state running, with the unload
  listener as it was and no request sent. After exactly 1500 calls the state is done, the
  counter is 0, the lock flag is set, exactly one request has been sent, the win report,
  and the unload listener is not registered.
\<close>

theorem completes_after_total_duration:
  assumes "timerState s = Running" and "secondsLeft s = TOTAL_SECONDS"
  shows "(\<forall>n<1500. timerState ((tick ^^ n) s) = Running \<and>
                   requests ((tick ^^ n) s) = requests s \<and>
                   unloadGuard ((tick ^^ n) s) = unloadGuard s) \<and>
         timerState ((tick ^^ 1500) s) = Done \<and>
         secondsLeft ((tick ^^ 1500) s) = 0 \<and>
         sessionLocked ((tick ^^ 1500) s) \<and>
         requests ((tick ^^ 1500) s) = requests s @ [win_request] \<and>
         \<not> unloadGuard ((tick ^^ 1500) s)"
proof -
  have before: "timerState ((tick ^^ n) s) = Running \<and> requests ((tick ^^ n) s) = requests s \<and>
                unloadGuard ((tick ^^ n) s) = unloadGuard s" if "n < 1500" for n
  proof -
    have "int n < secondsLeft s" using that assms(2) by (simp add: TOTAL_SECONDS_def)
    from ticks_frame[OF this] obtain p where
      "(tick ^^ n) s = s\<lparr> secondsLeft := secondsLeft s - int n, page := p \<rparr>" by blast
    then show ?thesis using assms(1) by simp
  qed
  have "secondsLeft s = int (Suc 1499)" using assms(2) by (simp add: TOTAL_SECONDS_def)
  from ticks_last[OF this] obtain p where
    "(tick ^^ Suc 1499) s =
           s\<lparr> secondsLeft := 0, page := p,
              timers := (case intervalId s of None \<Rightarrow> timers s | Some h \<Rightarrow> removeAll h (timers s)),
              sessionLocked := True, timerState := Done, unloadGuard := False,
              requests := requests s @ [win_request], pending := pending s @ [AfterWin] \<rparr>" by blast
  moreover have "Suc 1499 = (1500::nat)" by simp
  ultimately have after: "(tick ^^ 1500) s =
           s\<lparr> secondsLeft := 0, page := p,
              timers := (case intervalId s of None \<Rightarrow> timers s | Some h \<Rightarrow> removeAll h (timers s)),
              sessionLocked := True, timerState := Done, unloadGuard := False,
              requests := requests s @ [win_request], pending := pending s @ [AfterWin] \<rparr>"
    by (simp only:)
  show ?thesis using before by (simp add: after)
qed

theorem completes_after_total_duration_witness:
  "timerState (startTimer (initial samplePage)) = Running \<and>
   secondsLeft (startTimer (initial samplePage)) = TOTAL_SECONDS \<and>
   timerState ((tick ^^ 1499) (startTimer (initial samplePage))) = Running \<and>
   requests ((tick ^^ 1499) (startTimer (initial samplePage))) = [] \<and>
   timerState ((tick ^^ 1500) (startTimer (initial samplePage))) = Done \<and>
   requests ((tick ^^ 1500) (startTimer (initial samplePage))) = [win_request] \<and>
   \<not> unloadGuard ((tick ^^ 1500) (startTimer (initial samplePage))) \<and>
   run (ClickStart # replicate 1500 IntervalFires) (initial samplePage) =
     (tick ^^ 1500) (startTimer (initial samplePage))"
proof -
  let ?s = "startTimer (initial samplePage)"
  have r: "timerState ?s = Running" and f: "secondsLeft ?s = TOTAL_SECONDS"
    by (simp_all add: started_sample_fields TOTAL_SECONDS_def)
  note th = completes_after_total_duration[OF r f]
  have a: "timerState ((tick ^^ 1499) ?s) = Running \<and> requests ((tick ^^ 1499) ?s) = requests ?s"
    using th by simp
  have b: "timerState ((tick ^^ 1500) ?s) = Done \<and> requests ((tick ^^ 1500) ?s) = requests ?s @ [win_request] \<and>
           \<not> unloadGuard ((tick ^^ 1500) ?s)"
    using th by blast
  have "step ClickStart (initial samplePage) = ?s"
    by (simp add: step_def initial_sample_fields)
  moreover have "run (replicate 1500 IntervalFires) ?s = (tick ^^ 1500) ?s"
    by (rule run_ticks) (simp_all add: started_sample_fields)
  ultimately have c: "run (ClickStart # replicate 1500 IntervalFires) (initial samplePage) = (tick ^^ 1500) ?s"
    by simp
  show ?thesis using r f a b c by (simp add: started_sample_fields)
qed

lemma ticks_disabled: "btnStart_disabled (page ((tick ^^ n) s)) = btnStart_disabled (page s)"
  by (induction n) (simp_all add: tick_disabled)

lemma startTimer_classes:
  "timerState s \<noteq> Running \<Longrightarrow>
     display_classes (page (startTimer s)) = insert ''running'' (display_classes (page s)) - {''danger''}"
  by (simp add: startTimer_def Let_def prim_defs)

lemma abandonSession_classes:
  "display_classes (page (abandonSession s)) = display_classes (page s)"
  "btnStart_disabled (page (abandonSession s)) = btnStart_disabled (page s)"
  by (simp_all add: abandonSession_def Let_def prim_defs split: option.splits)

lemma settle_classes:
  "display_classes (page (settle k outcome s)) = display_classes (page s)"
  by (simp add: settle_def showResult_def reportWin_resume_def reportLoss_resume_def Let_def prim_defs
      split: continuation.splits fetch_outcome.splits option.splits)

lemma handleBeforeUnload_page: "page (snd (handleBeforeUnload e s)) = page s"
  by (simp add: handleBeforeUnload_def Let_def prim_defs)

lemma onClickAgain_classes: "''danger'' \<notin> display_classes (page (onClickAgain s))"
  by (simp add: onClickAgain_def resetTimer_def Let_def prim_defs split: option.splits)

lemma step_keeps_danger:
  assumes "ev \<noteq> ClickAgain" and "btnStart_disabled (page s)"
    and "''danger'' \<in> display_classes (page s)"
  shows "btnStart_disabled (page (step ev s)) \<and> ''danger'' \<in> display_classes (page (step ev s))"
  using assms
  by (cases ev)
     (simp_all add: step_def abandonSession_classes tick_disabled tick_classes settle_classes
        settle_disabled handleBeforeUnload_page)

lemma run_keeps_danger:
  assumes "ClickAgain \<notin> set es" and "btnStart_disabled (page s)"
    and "''danger'' \<in> display_classes (page s)"
  shows "''danger'' \<in> display_classes (page (run es s))"
  using assms
proof (induction es arbitrary: s)
  case Nil
  then show ?case by simp
next
  case (Cons ev es)
  have "ev \<noteq> ClickAgain" and "ClickAgain \<notin> set es" using Cons.prems(1) by auto
  with Cons.IH[of "step ev s"] step_keeps_danger[of ev s] Cons.prems show ?case by simp
qed

section \<open>The last minute\<close>

text \<open>
  C7. In a session started with \<open>secondsLeft = 1500\<close>: during the first 1439 ticks the
  display is not in danger mode; after 1440 ticks \<open>secondsLeft = 60\<close> and the display has
  the class \<open>danger\<close> and no longer the class \<open>running\<close>; every later tick leaves the class
  list as the 1440th made it. After 1500 ticks \<open>secondsLeft = 0\<close>, the state is done and
  the win report is the one request sent. From the 1440th tick on, the class \<open>danger\<close>
  stays through every sequence of events without a click on battle-again, and that
  click removes it.
\<close>

theorem danger_mode_in_last_minute:
  assumes "timerState s \<noteq> Running" and "secondsLeft s = 1500"
  shows "(\<forall>n<1440. ''danger'' \<notin> display_classes (page ((tick ^^ n) (startTimer s)))) \<and>
         secondsLeft ((tick ^^ 1440) (startTimer s)) = 60 \<and>
         ''danger'' \<in> display_classes (page ((tick ^^ 1440) (startTimer s))) \<and>
         ''running'' \<notin> display_classes (page ((tick ^^ 1440) (startTimer s))) \<and>
         (\<forall>n\<ge>1440. display_classes (page ((tick ^^ n) (startTimer s))) =
                     display_classes (page ((tick ^^ 1440) (startTimer s)))) \<and>
         secondsLeft ((tick ^^ 1500) (startTimer s)) = 0 \<and>
         timerState ((tick ^^ 1500) (startTimer s)) = Done \<and>
         requests ((tick ^^ 1500) (startTimer s)) = requests s @ [win_request] \<and>
         (\<forall>n\<ge>1440. \<forall>es. ClickAgain \<notin> set es \<longrightarrow>
            ''danger'' \<in> display_classes (page (run es ((tick ^^ n) (startTimer s)))) \<and>
            ''danger'' \<notin> display_classes (page (step ClickAgain (run es ((tick ^^ n) (startTimer s))))))"
proof -
  let ?s0 = "startTimer s"
  from startTimer_frame[OF assms(1)] obtain p where dis: "btnStart_disabled p" and
    eq: "?s0 = s\<lparr> timerState := Running, sessionLocked := False, page := p,
              timers := timers s @ [nextHandle s], nextHandle := Suc (nextHandle s),
              intervalId := Some (nextHandle s), unloadGuard := True \<rparr>" by blast
  have sl: "secondsLeft ?s0 = 1500" and run0: "timerState ?s0 = Running"
    and rq: "requests ?s0 = requests s" and d0: "btnStart_disabled (page ?s0)"
    using assms(2) dis by (simp_all add: eq)
  have c0: "display_classes (page ?s0) = insert ''running'' (display_classes (page s)) - {''danger''}"
    by (rule startTimer_classes[OF assms(1)])
  have cls: "display_classes (page ((tick ^^ n) ?s0)) =
               (if 1440 \<le> n then insert ''danger'' (display_classes (page s)) - {''running''}
                else insert ''running'' (display_classes (page s)) - {''danger''})" for n
    by (auto simp: ticks_classes sl c0)
  have early: "\<forall>n<1440. ''danger'' \<notin> display_classes (page ((tick ^^ n) ?s0))"
    by (simp add: cls)
  have at60: "secondsLeft ((tick ^^ 1440) ?s0) = 60"
    by (simp add: ticks_secondsLeft sl)
  have on: "''danger'' \<in> display_classes (page ((tick ^^ 1440) ?s0))"
    and off: "''running'' \<notin> display_classes (page ((tick ^^ 1440) ?s0))"
    by (simp_all add: cls)
  have once: "\<forall>n\<ge>1440. display_classes (page ((tick ^^ n) ?s0)) =
                display_classes (page ((tick ^^ 1440) ?s0))"
    by (simp add: cls)
  have "secondsLeft ?s0 = int (Suc 1499)" by (simp add: sl)
  from ticks_last[OF this] obtain p' where
    "(tick ^^ Suc 1499) ?s0 =
       ?s0\<lparr> secondsLeft := 0, page := p',
          timers := (case intervalId ?s0 of None \<Rightarrow> timers ?s0 | Some h \<Rightarrow> removeAll h (timers ?s0)),
          sessionLocked := True, timerState := Done, unloadGuard := False,
          requests := requests ?s0 @ [win_request], pending := pending ?s0 @ [AfterWin] \<rparr>" by blast
  moreover have "Suc 1499 = (1500::nat)" by simp
  ultimately have fin: "(tick ^^ 1500) ?s0 =
       ?s0\<lparr> secondsLeft := 0, page := p',
          timers := (case intervalId ?s0 of None \<Rightarrow> timers ?s0 | Some h \<Rightarrow> removeAll h (timers ?s0)),
          sessionLocked := True, timerState := Done, unloadGuard := False,
          requests := requests ?s0 @ [win_request], pending := pending ?s0 @ [AfterWin] \<rparr>"
    by (simp only:)
  have finished: "secondsLeft ((tick ^^ 1500) ?s0) = 0 \<and> timerState ((tick ^^ 1500) ?s0) = Done \<and>
              requests ((tick ^^ 1500) ?s0) = requests s @ [win_request]"
    by (simp add: fin rq)
  have stays: "''danger'' \<in> display_classes (page (run es ((tick ^^ n) ?s0))) \<and>
               ''danger'' \<notin> display_classes (page (step ClickAgain (run es ((tick ^^ n) ?s0))))"
    if "1440 \<le> n" and "ClickAgain \<notin> set es" for n es
  proof -
    have "''danger'' \<in> display_classes (page ((tick ^^ n) ?s0))"
      using that(1) by (simp add: cls)
    moreover have "btnStart_disabled (page ((tick ^^ n) ?s0))"
      by (simp add: ticks_disabled d0)
    ultimately have "''danger'' \<in> display_classes (page (run es ((tick ^^ n) ?s0)))"
      using that(2) by (intro run_keeps_danger)
    then show ?thesis by (simp add: step_def onClickAgain_classes)
  qed
  from early at60 on off once finished stays show ?thesis by blast
qed

theorem danger_mode_in_last_minute_witness:
  "timerState (initial samplePage) \<noteq> Running \<and> secondsLeft (initial samplePage) = 1500 \<and>
   ''danger'' \<notin> display_classes (page ((tick ^^ 1439) (startTimer (initial samplePage)))) \<and>
   secondsLeft ((tick ^^ 1440) (startTimer (initial samplePage))) = 60 \<and>
   ''danger'' \<in> display_classes (page ((tick ^^ 1440) (startTimer (initial samplePage)))) \<and>
   display_classes (page ((tick ^^ 1500) (startTimer (initial samplePage)))) =
     display_classes (page ((tick ^^ 1440) (startTimer (initial samplePage)))) \<and>
   timerState ((tick ^^ 1500) (startTimer (initial samplePage))) = Done \<and>
   requests ((tick ^^ 1500) (startTimer (initial samplePage))) = [win_request] \<and>
   ''danger'' \<in> display_classes
      (page (run [ClickAbandon, BeforeUnload] ((tick ^^ 1460) (startTimer (initial samplePage))))) \<and>
   ''danger'' \<notin> display_classes
      (page (step ClickAgain (run [] ((tick ^^ 1500) (startTimer (initial samplePage))))))"
proof -
  let ?s0 = "startTimer (initial samplePage)"
  have ne: "timerState (initial samplePage) \<noteq> Running" and full: "secondsLeft (initial samplePage) = 1500"
    by (simp_all add: initial_sample_fields)
  note th = danger_mode_in_last_minute[OF ne full]
  note th2 = th[THEN conjunct2]
  note th3 = th2[THEN conjunct2]
  note th5 = th3[THEN conjunct2, THEN conjunct2]
  note th7 = th5[THEN conjunct2, THEN conjunct2]
  note th8 = th7[THEN conjunct2]
  have a: "''danger'' \<notin> display_classes (page ((tick ^^ 1439) ?s0))"
    by (rule th[THEN conjunct1, rule_format]) simp
  have b1: "secondsLeft ((tick ^^ 1440) ?s0) = 60"
    by (rule th2[THEN conjunct1])
  have b2: "''danger'' \<in> display_classes (page ((tick ^^ 1440) ?s0))"
    by (rule th3[THEN conjunct1])
  have c: "display_classes (page ((tick ^^ 1500) ?s0)) = display_classes (page ((tick ^^ 1440) ?s0))"
    by (rule th5[THEN conjunct1, rule_format]) simp
  have d1: "timerState ((tick ^^ 1500) ?s0) = Done"
    by (rule th7[THEN conjunct1])
  have "requests ((tick ^^ 1500) ?s0) = requests (initial samplePage) @ [win_request]"
    by (rule th8[THEN conjunct1])
  then have d2: "requests ((tick ^^ 1500) ?s0) = [win_request]"
    by (simp only: initial_sample_fields append_Nil)
  note e = th8[THEN conjunct2, rule_format]
  have "''danger'' \<in> display_classes (page (run [ClickAbandon, BeforeUnload] ((tick ^^ 1460) ?s0))) \<and>
        ''danger'' \<notin> display_classes (page (step ClickAgain (run [ClickAbandon, BeforeUnload] ((tick ^^ 1460) ?s0))))"
    by (rule e) simp_all
  then have e1: "''danger'' \<in> display_classes (page (run [ClickAbandon, BeforeUnload] ((tick ^^ 1460) ?s0)))"
    by (rule conjunct1)
  have "''danger'' \<in> display_classes (page (run [] ((tick ^^ 1500) ?s0))) \<and>
        ''danger'' \<notin> display_classes (page (step ClickAgain (run [] ((tick ^^ 1500) ?s0))))"
    by (rule e) simp_all
  then have e2: "''danger'' \<notin> display_classes (page (step ClickAgain (run [] ((tick ^^ 1500) ?s0))))"
    by (rule conjunct2)
  from ne full a b1 b2 c d1 d2 e1 e2 show ?thesis by (intro conjI)
qed

lemma quiet_after_done:
  assumes "ClickStart \<notin> set es" and "timerState s \<noteq> Running"
  shows "timerState (run es s) \<noteq> Running"
  using assms
proof (induction es arbitrary: s)
  case Nil
  then show ?case by simp
next
  case (Cons ev es)
  have "timerState (step ev s) \<noteq> Running"
  proof (cases ev)
    case ClickStart
    then show ?thesis using Cons.prems by simp
  next
    case ClickAbandon
    then show ?thesis using Cons.prems by (simp add: step_def abandonSession_idle)
  next
    case ClickAgain
    from onClickAgain_frame[of s] obtain p where
      "onClickAgain s =
         s\<lparr> timers := (case intervalId s of None \<Rightarrow> timers s | Some h \<Rightarrow> removeAll h (timers s)),
            secondsLeft := TOTAL_SECONDS, timerState := Idle, sessionLocked := False,
            page := p, unloadGuard := False \<rparr>" by blast
    then show ?thesis using ClickAgain by (simp add: step_def)
  next
    case IntervalFires
    show ?thesis
    proof (cases "1 < secondsLeft s")
      case True
      from tick_frame[OF True] obtain p where
        "tick s = s\<lparr> secondsLeft := secondsLeft s - 1, page := p \<rparr>" by blast
      then show ?thesis using IntervalFires Cons.prems by (simp add: step_def)
    next
      case False
      then have "secondsLeft s \<le> 1" by simp
      from tick_final[OF this] obtain p where
        "tick s = s\<lparr> secondsLeft := secondsLeft s - 1, page := p,
                     timers := (case intervalId s of None \<Rightarrow> timers s | Some h \<Rightarrow> removeAll h (timers s)),
                     sessionLocked := True, timerState := Done, unloadGuard := False,
                     requests := requests s @ [win_request], pending := pending s @ [AfterWin] \<rparr>" by blast
      then show ?thesis using IntervalFires Cons.prems by (simp add: step_def)
    qed
  next
    case BeforeUnload
    then show ?thesis using Cons.prems by (simp add: step_def handleBeforeUnload_inactive)
  next
    case (Settle k outcome)
    from settle_frame[of s k outcome] obtain p c q where
      "settle k outcome s = s\<lparr> page := p, console := c, pending := q \<rparr>" by blast
    then show ?thesis using Settle Cons.prems by (simp add: step_def)
  qed
  moreover have "ClickStart \<notin> set es" using Cons.prems by simp
  ultimately show ?case using Cons.IH by simp
qed

lemma step_BeforeUnload_idle:
  "timerState s \<noteq> Running \<Longrightarrow> step BeforeUnload s = s"
  by (simp add: step_def handleBeforeUnload_inactive)

section \<open>Abandoning a session\<close>

text \<open>
  C4. \<open>abandonSession\<close> called while the state is running sends exactly one request, the
  loss report (without \<open>keepalive\<close>), sets the state to done and the lock flag, and
  unregisters the unload listener. From then on, until the start button is clicked again,
  the handler sends nothing if it is called, and a \<open>beforeunload\<close> event leaves the state,
  and with it the list of requests, as it is.
\<close>

theorem abandon_reports_one_loss:
  assumes "timerState s = Running"
  shows "requests (abandonSession s) = requests s @ [loss_request False] \<and>
         timerState (abandonSession s) = Done \<and>
         sessionLocked (abandonSession s) \<and>
         \<not> unloadGuard (abandonSession s) \<and>
         (\<forall>es e. ClickStart \<notin> set es \<longrightarrow>
            handleBeforeUnload e (run es (abandonSession s)) = (e, run es (abandonSession s)) \<and>
            step BeforeUnload (run es (abandonSession s)) = run es (abandonSession s))"
proof -
  note fr = abandonSession_frame[OF assms]
  have a: "requests (abandonSession s) = requests s @ [loss_request False]"
    and b: "timerState (abandonSession s) = Done"
    and c: "sessionLocked (abandonSession s)"
    and d: "\<not> unloadGuard (abandonSession s)"
    by (simp_all add: fr)
  have later: "handleBeforeUnload e (run es (abandonSession s)) = (e, run es (abandonSession s)) \<and>
               step BeforeUnload (run es (abandonSession s)) = run es (abandonSession s)"
    if "ClickStart \<notin> set es" for es e
  proof -
    have "timerState (abandonSession s) \<noteq> Running" by (simp add: b)
    with that have "timerState (run es (abandonSession s)) \<noteq> Running"
      by (rule quiet_after_done)
    then show ?thesis
      by (simp add: handleBeforeUnload_inactive step_BeforeUnload_idle)
  qed
  from a b c d later show ?thesis by blast
qed

theorem abandon_reports_one_loss_witness:
  "timerState (startTimer (initial samplePage)) = Running \<and>
   requests (abandonSession (startTimer (initial samplePage))) = [loss_request False] \<and>
   timerState (abandonSession (startTimer (initial samplePage))) = Done \<and>
   sessionLocked (abandonSession (startTimer (initial samplePage))) \<and>
   step BeforeUnload (run [BeforeUnload, IntervalFires] (abandonSession (startTimer (initial samplePage)))) =
     run [BeforeUnload, IntervalFires] (abandonSession (startTimer (initial samplePage)))"
proof -
  let ?s = "startTimer (initial samplePage)"
  have r: "timerState ?s = Running" by (rule started_sample_fields)
  note th = abandon_reports_one_loss[OF r]
  note th2 = th[THEN conjunct2]
  note th3 = th2[THEN conjunct2]
  have "requests (abandonSession ?s) = requests ?s @ [loss_request False]"
    by (rule th[THEN conjunct1])
  then have a: "requests (abandonSession ?s) = [loss_request False]"
    by (simp only: started_sample_fields append_Nil)
  have b: "timerState (abandonSession ?s) = Done" by (rule th2[THEN conjunct1])
  have c: "sessionLocked (abandonSession ?s)" by (rule th3[THEN conjunct1])
  have "handleBeforeUnload freshUnload (run [BeforeUnload, IntervalFires] (abandonSession ?s)) =
          (freshUnload, run [BeforeUnload, IntervalFires] (abandonSession ?s)) \<and>
        step BeforeUnload (run [BeforeUnload, IntervalFires] (abandonSession ?s)) =
          run [BeforeUnload, IntervalFires] (abandonSession ?s)"
    by (rule th3[THEN conjunct2, THEN conjunct2, rule_format]) simp
  then have d: "step BeforeUnload (run [BeforeUnload, IntervalFires] (abandonSession ?s)) =
          run [BeforeUnload, IntervalFires] (abandonSession ?s)"
    by (rule conjunct2)
  from r a b c d show ?thesis by (intro conjI)
qed

lemma consistent_resetTimer:
  assumes "consistent s"
  shows "consistent (resetTimer s)"
proof -
  from resetTimer_frame[of s] obtain p where
    "resetTimer s =
     s\<lparr> timers := (case intervalId s of None \<Rightarrow> timers s | Some h \<Rightarrow> removeAll h (timers s)),
        secondsLeft := TOTAL_SECONDS, timerState := Idle, sessionLocked := False,
        page := p, unloadGuard := False \<rparr>" by blast
  then show ?thesis
    by (simp add: consistent_def consistent_cleared[OF assms] TOTAL_SECONDS_def)
qed

lemma consistent_timers:
  assumes "consistent s"
  shows "(timers s = []) = (timerState s \<noteq> Running)"
  using assms by (cases "timerState s") (auto simp: consistent_def split: option.splits)

lemma consistent_enabled:
  assumes "consistent s" and "\<not> btnStart_disabled (page s)"
  shows "timerState s = Idle"
  using assms by (cases "timerState s") (auto simp: consistent_def)

lemma same_session_step:
  assumes "same_session pre a b"
  shows "same_session pre (step ev a) (step ev b)"
proof -
  have ca: "consistent a" and cb: "consistent b"
    and ts: "timerState a = timerState b" and sl: "secondsLeft a = secondsLeft b"
    and lk: "sessionLocked a = sessionLocked b" and ug: "unloadGuard a = unloadGuard b"
    and ds: "btnStart_disabled (page a) = btnStart_disabled (page b)"
    and rq: "requests a = pre @ requests b"
    using assms by (simp_all add: same_session_def)
  have ca': "consistent (step ev a)" and cb': "consistent (step ev b)"
    using ca cb by (simp_all add: consistent_step)
  have "timerState (step ev a) = timerState (step ev b) \<and>
        secondsLeft (step ev a) = secondsLeft (step ev b) \<and>
        sessionLocked (step ev a) = sessionLocked (step ev b) \<and>
        unloadGuard (step ev a) = unloadGuard (step ev b) \<and>
        btnStart_disabled (page (step ev a)) = btnStart_disabled (page (step ev b)) \<and>
        requests (step ev a) = pre @ requests (step ev b)"
  proof (cases ev)
    case ClickStart
    show ?thesis
    proof (cases "btnStart_disabled (page a)")
      case True
      then show ?thesis using ClickStart ts sl lk ug ds rq by (simp add: step_def)
    next
      case False
      then have na: "timerState a \<noteq> Running" and nb: "timerState b \<noteq> Running"
        using consistent_enabled[OF ca] ts by simp_all
      from startTimer_frame[OF na] obtain p where "btnStart_disabled p" and
        "startTimer a = a\<lparr> timerState := Running, sessionLocked := False, page := p,
              timers := timers a @ [nextHandle a], nextHandle := Suc (nextHandle a),
              intervalId := Some (nextHandle a), unloadGuard := True \<rparr>" by blast
      moreover from startTimer_frame[OF nb] obtain p' where "btnStart_disabled p'" and
        "startTimer b = b\<lparr> timerState := Running, sessionLocked := False, page := p',
              timers := timers b @ [nextHandle b], nextHandle := Suc (nextHandle b),
              intervalId := Some (nextHandle b), unloadGuard := True \<rparr>" by blast
      ultimately show ?thesis using ClickStart False ds sl rq by (simp add: step_def)
    qed
  next
    case ClickAbandon
    show ?thesis
    proof (cases "timerState a = Running")
      case True
      then have "timerState b = Running" using ts by simp
      then show ?thesis using ClickAbandon True sl ds rq
        by (simp add: step_def abandonSession_frame)
    next
      case False
      then have "timerState b \<noteq> Running" using ts by simp
      then show ?thesis using ClickAbandon False ts sl lk ug ds rq
        by (simp add: step_def abandonSession_idle)
    qed
  next
    case ClickAgain
    from onClickAgain_frame[of a] obtain p where "\<not> btnStart_disabled p" and
      "onClickAgain a =
         a\<lparr> timers := (case intervalId a of None \<Rightarrow> timers a | Some h \<Rightarrow> removeAll h (timers a)),
            secondsLeft := TOTAL_SECONDS, timerState := Idle, sessionLocked := False,
            page := p, unloadGuard := False \<rparr>" by blast
    moreover from onClickAgain_frame[of b] obtain p' where "\<not> btnStart_disabled p'" and
      "onClickAgain b =
         b\<lparr> timers := (case intervalId b of None \<Rightarrow> timers b | Some h \<Rightarrow> removeAll h (timers b)),
            secondsLeft := TOTAL_SECONDS, timerState := Idle, sessionLocked := False,
            page := p', unloadGuard := False \<rparr>" by blast
    ultimately show ?thesis using ClickAgain rq by (simp add: step_def)
  next
    case IntervalFires
    have tm: "(timers a = []) = (timers b = [])"
      using consistent_timers[OF ca] consistent_timers[OF cb] ts by simp
    show ?thesis
    proof (cases "timers a = []")
      case True
      then show ?thesis using IntervalFires tm ts sl lk ug ds rq by (simp add: step_def)
    next
      case False
      then have st: "step ev a = tick a" "step ev b = tick b"
        using IntervalFires tm by (simp_all add: step_def)
      show ?thesis
      proof (cases "1 < secondsLeft a")
        case True
        then have "1 < secondsLeft b" using sl by simp
        from tick_frame_disabled[OF True] obtain p where
          "btnStart_disabled p = btnStart_disabled (page a)" and
          "tick a = a\<lparr> secondsLeft := secondsLeft a - 1, page := p \<rparr>" by blast
        moreover from tick_frame_disabled[OF \<open>1 < secondsLeft b\<close>] obtain p' where
          "btnStart_disabled p' = btnStart_disabled (page b)" and
          "tick b = b\<lparr> secondsLeft := secondsLeft b - 1, page := p' \<rparr>" by blast
        ultimately show ?thesis using ts sl lk ug ds rq by (simp add: st)
      next
        case False
        then have la: "secondsLeft a \<le> 1" and lb: "secondsLeft b \<le> 1" using sl by simp_all
        from tick_final_disabled[OF la] obtain p where
          "btnStart_disabled p = btnStart_disabled (page a)" and
          "tick a = a\<lparr> secondsLeft := secondsLeft a - 1, page := p,
               timers := (case intervalId a of None \<Rightarrow> timers a | Some h \<Rightarrow> removeAll h (timers a)),
               sessionLocked := True, timerState := Done, unloadGuard := False,
               requests := requests a @ [win_request], pending := pending a @ [AfterWin] \<rparr>" by blast
        moreover from tick_final_disabled[OF lb] obtain p' where
          "btnStart_disabled p' = btnStart_disabled (page b)" and
          "tick b = b\<lparr> secondsLeft := secondsLeft b - 1, page := p',
               timers := (case intervalId b of None \<Rightarrow> timers b | Some h \<Rightarrow> removeAll h (timers b)),
               sessionLocked := True, timerState := Done, unloadGuard := False,
               requests := requests b @ [win_request], pending := pending b @ [AfterWin] \<rparr>" by blast
        ultimately show ?thesis using sl ds rq by (simp add: st)
      qed
    qed
  next
    case BeforeUnload
    show ?thesis
    proof (cases "unloadGuard a \<and> timerState a = Running \<and> \<not> sessionLocked a")
      case True
      then have "unloadGuard b \<and> timerState b = Running \<and> \<not> sessionLocked b"
        using ug ts lk by simp
      then show ?thesis using BeforeUnload True sl ds rq
        by (simp add: step_def handleBeforeUnload_active)
    next
      case False
      then have "step ev a = a" and "step ev b = b"
        using BeforeUnload ug ts lk by (auto simp: step_def handleBeforeUnload_inactive)
      then show ?thesis using ts sl lk ug ds rq by simp
    qed
  next
    case (Settle k outcome)
    from settle_frame[of a k outcome] obtain p c q where
      "btnStart_disabled p = btnStart_disabled (page a)" and
      "settle k outcome a = a\<lparr> page := p, console := c, pending := q \<rparr>" by blast
    moreover from settle_frame[of b k outcome] obtain p' c' q' where
      "btnStart_disabled p' = btnStart_disabled (page b)" and
      "settle k outcome b = b\<lparr> page := p', console := c', pending := q' \<rparr>" by blast
    ultimately show ?thesis using Settle ts sl lk ug ds rq by (simp add: step_def)
  qed
  then show ?thesis using ca' cb' by (simp add: same_session_def)
qed

lemma same_session_run:
  "same_session pre a b \<Longrightarrow> same_session pre (run es a) (run es b)"
  by (induction es arbitrary: a b) (simp_all add: same_session_step)

lemma initial_fields:
  "timerState (initial pg) = Idle"
  "secondsLeft (initial pg) = TOTAL_SECONDS"
  "\<not> sessionLocked (initial pg)"
  "\<not> unloadGuard (initial pg)"
  "requests (initial pg) = []"
  "btnStart_disabled (page (initial pg)) = btnStart_disabled pg"
  by (simp_all add: initial_def boot_def onDOMContentLoaded_def updateProgress_def)

lemma sample_runs:
  "step ClickStart (initial samplePage) = startTimer (initial samplePage)"
  "step ClickAbandon (startTimer (initial samplePage)) = abandonSession (startTimer (initial samplePage))"
  "step BeforeUnload (startTimer (initial samplePage)) =
     (startTimer (initial samplePage))\<lparr> requests := [loss_request True] \<rparr>"
  by (simp_all add: step_def initial_sample_fields started_sample_fields handleBeforeUnload_active)

lemma abandoned_sample_fields:
  "timerState (abandonSession (startTimer (initial samplePage))) = Done"
  "requests (abandonSession (startTimer (initial samplePage))) = [loss_request False]"
  "sessionLocked (abandonSession (startTimer (initial samplePage)))"
  by (simp_all add: abandonSession_frame started_sample_fields)

section \<open>Reset\<close>

text \<open>
  C9. \<open>resetTimer\<close> called in a reachable state that is done sets \<open>secondsLeft\<close> to 1500
  and the state to idle, clears the lock flag, and leaves the unload listener
  unregistered and no interval active. The session is armed again as on a freshly loaded
  page whose start button is enabled: whatever events follow, the state, the counter, the
  lock flag and the unload listener are the same in both, the unload handler answers
  the same, and the requests sent after the reset are exactly the requests the fresh page
  sends.
\<close>

theorem reset_rearms_session:
  assumes "timerState (run es0 (initial pg0)) = Done" and "\<not> btnStart_disabled pg"
  shows "secondsLeft (resetTimer (run es0 (initial pg0))) = 1500 \<and>
         timerState (resetTimer (run es0 (initial pg0))) = Idle \<and>
         \<not> sessionLocked (resetTimer (run es0 (initial pg0))) \<and>
         \<not> unloadGuard (resetTimer (run es0 (initial pg0))) \<and>
         timers (resetTimer (run es0 (initial pg0))) = [] \<and>
         (\<forall>es. timerState (run es (resetTimer (run es0 (initial pg0)))) = timerState (run es (initial pg)) \<and>
               secondsLeft (run es (resetTimer (run es0 (initial pg0)))) = secondsLeft (run es (initial pg)) \<and>
               sessionLocked (run es (resetTimer (run es0 (initial pg0)))) = sessionLocked (run es (initial pg)) \<and>
               unloadGuard (run es (resetTimer (run es0 (initial pg0)))) = unloadGuard (run es (initial pg)) \<and>
               requests (run es (resetTimer (run es0 (initial pg0)))) =
                 requests (run es0 (initial pg0)) @ requests (run es (initial pg)) \<and>
               (\<forall>e. fst (handleBeforeUnload e (run es (resetTimer (run es0 (initial pg0))))) =
                    fst (handleBeforeUnload e (run es (initial pg)))))"
proof -
  let ?s = "run es0 (initial pg0)"
  have cs: "consistent ?s" by (rule consistent_reachable)
  from resetTimer_frame[of ?s] obtain p where en: "\<not> btnStart_disabled p" and
    eq: "resetTimer ?s =
           ?s\<lparr> timers := (case intervalId ?s of None \<Rightarrow> timers ?s | Some h \<Rightarrow> removeAll h (timers ?s)),
              secondsLeft := TOTAL_SECONDS, timerState := Idle, sessionLocked := False,
              page := p, unloadGuard := False \<rparr>" by blast
  have now: "secondsLeft (resetTimer ?s) = 1500 \<and> timerState (resetTimer ?s) = Idle \<and>
             \<not> sessionLocked (resetTimer ?s) \<and> \<not> unloadGuard (resetTimer ?s) \<and>
             timers (resetTimer ?s) = []"
    by (simp add: eq consistent_cleared[OF cs] TOTAL_SECONDS_def)
  have rel: "same_session (requests ?s) (resetTimer ?s) (initial pg)"
    using assms(2) en
    by (simp add: same_session_def consistent_resetTimer[OF cs] consistent_initial initial_fields)
       (simp add: eq)
  have later: "timerState (run es (resetTimer ?s)) = timerState (run es (initial pg)) \<and>
               secondsLeft (run es (resetTimer ?s)) = secondsLeft (run es (initial pg)) \<and>
               sessionLocked (run es (resetTimer ?s)) = sessionLocked (run es (initial pg)) \<and>
               unloadGuard (run es (resetTimer ?s)) = unloadGuard (run es (initial pg)) \<and>
               requests (run es (resetTimer ?s)) = requests ?s @ requests (run es (initial pg)) \<and>
               (\<forall>e. fst (handleBeforeUnload e (run es (resetTimer ?s))) =
                    fst (handleBeforeUnload e (run es (initial pg))))" for es
  proof -
    from same_session_run[OF rel, of es]
    have r: "same_session (requests ?s) (run es (resetTimer ?s)) (run es (initial pg))" .
    then have "timerState (run es (resetTimer ?s)) = timerState (run es (initial pg))"
      and "sessionLocked (run es (resetTimer ?s)) = sessionLocked (run es (initial pg))"
      by (simp_all add: same_session_def)
    then have "fst (handleBeforeUnload e (run es (resetTimer ?s))) =
               fst (handleBeforeUnload e (run es (initial pg)))" for e
      by (simp add: handleBeforeUnload_def Let_def)
    then show ?thesis using r by (simp add: same_session_def)
  qed
  from now later show ?thesis by blast
qed

theorem reset_rearms_session_witness:
  "timerState (run [ClickStart, ClickAbandon] (initial samplePage)) = Done \<and>
   \<not> btnStart_disabled samplePage \<and>
   secondsLeft (resetTimer (run [ClickStart, ClickAbandon] (initial samplePage))) = 1500 \<and>
   timerState (resetTimer (run [ClickStart, ClickAbandon] (initial samplePage))) = Idle \<and>
   \<not> sessionLocked (resetTimer (run [ClickStart, ClickAbandon] (initial samplePage))) \<and>
   requests (run [ClickStart, BeforeUnload] (resetTimer (run [ClickStart, ClickAbandon] (initial samplePage)))) =
     [loss_request False, loss_request True] \<and>
   timerState (run [ClickStart, ClickAbandon] (resetTimer (run [ClickStart, ClickAbandon] (initial samplePage)))) =
     Done"
proof -
  let ?s = "run [ClickStart, ClickAbandon] (initial samplePage)"
  have s: "?s = abandonSession (startTimer (initial samplePage))"
    by (simp add: sample_runs)
  have d: "timerState ?s = Done" by (simp only: s abandoned_sample_fields)
  have en: "\<not> btnStart_disabled samplePage" by (simp add: samplePage_def)
  note th = reset_rearms_session[OF d en]
  note th2 = th[THEN conjunct2]
  note th3 = th2[THEN conjunct2]
  note later = th3[THEN conjunct2, THEN conjunct2, THEN conjunct2, rule_format]
  have a: "secondsLeft (resetTimer ?s) = 1500" by (rule th[THEN conjunct1])
  have b: "timerState (resetTimer ?s) = Idle" by (rule th2[THEN conjunct1])
  have c: "\<not> sessionLocked (resetTimer ?s)" by (rule th3[THEN conjunct1])
  have "requests (run [ClickStart, BeforeUnload] (resetTimer ?s)) =
          requests ?s @ requests (run [ClickStart, BeforeUnload] (initial samplePage))"
    using later[of "[ClickStart, BeforeUnload]"] by blast
  moreover have "requests ?s = [loss_request False]" by (simp only: s abandoned_sample_fields)
  moreover have "requests (run [ClickStart, BeforeUnload] (initial samplePage)) = [loss_request True]"
    by (simp add: sample_runs)
  ultimately have e: "requests (run [ClickStart, BeforeUnload] (resetTimer ?s)) =
          [loss_request False, loss_request True]" by simp
  have "timerState (run [ClickStart, ClickAbandon] (resetTimer ?s)) =
          timerState (run [ClickStart, ClickAbandon] (initial samplePage))"
    using later[of "[ClickStart, ClickAbandon]"] by blast
  then have f: "timerState (run [ClickStart, ClickAbandon] (resetTimer ?s)) = Done"
    by (simp only: d)
  from d en a b c e f show ?thesis by (intro conjI)
qed

section \<open>Bounds of the counter\<close>

text \<open>
  C2. In every state reached from the loaded page by the events of the page (clicks on
  start, abandon and battle-again, firings of the interval, \<open>beforeunload\<close>, arriving
  responses), whatever the document, \<open>secondsLeft\<close> is an integer between 0 and
  \<open>TOTAL_SECONDS\<close>, which is 1500. The start button is disabled from a start until the next
  reset, so a session always starts at 1500, and the interval is cleared by the tick that
  reaches 0, so the counter is never decremented below 0.
\<close>

theorem secondsLeft_bounded:
  "0 \<le> secondsLeft (run es (initial pg)) \<and>
   secondsLeft (run es (initial pg)) \<le> TOTAL_SECONDS \<and> TOTAL_SECONDS = 1500"
proof -
  have "consistent (run es (initial pg))" by (rule consistent_reachable)
  then show ?thesis by (simp add: consistent_def TOTAL_SECONDS_def)
qed

theorem secondsLeft_bounded_witness:
  "secondsLeft (run [ClickStart, IntervalFires] (initial samplePage)) = 1499 \<and>
   0 \<le> secondsLeft (run [ClickStart, IntervalFires, ClickAbandon, ClickStart, IntervalFires] (initial samplePage)) \<and>
   secondsLeft (run [ClickStart, IntervalFires, ClickAbandon, ClickStart, IntervalFires] (initial samplePage))
     \<le> 1500"
proof -
  have "run [ClickStart, IntervalFires] (initial samplePage) = tick (startTimer (initial samplePage))"
    by (simp add: sample_runs) (simp add: step_def started_sample_fields)
  then have a: "secondsLeft (run [ClickStart, IntervalFires] (initial samplePage)) = 1499"
    by (simp add: tick_secondsLeft started_sample_fields)
  note th = secondsLeft_bounded[of "[ClickStart, IntervalFires, ClickAbandon, ClickStart, IntervalFires]" samplePage]
  have b: "0 \<le> secondsLeft (run [ClickStart, IntervalFires, ClickAbandon, ClickStart, IntervalFires] (initial samplePage))"
    by (rule th[THEN conjunct1])
  have "secondsLeft (run [ClickStart, IntervalFires, ClickAbandon, ClickStart, IntervalFires] (initial samplePage))
          \<le> TOTAL_SECONDS" by (rule th[THEN conjunct2, THEN conjunct1])
  then have c: "secondsLeft (run [ClickStart, IntervalFires, ClickAbandon, ClickStart, IntervalFires] (initial samplePage))
          \<le> 1500" by (simp only: th[THEN conjunct2, THEN conjunct2])
  from a b c show ?thesis by (intro conjI)
qed

section \<open>What the bounds rest on\<close>

text \<open>
  The guard of \<open>startTimer\<close> refuses a running state only, and \<open>startTimer\<close> does not
  set the counter. It is the disabled start button that keeps a finished session from
  being started again without a reset: were \<open>startTimer\<close> called directly in the state
  a completed countdown leaves, the next tick would take the counter to \<open>-1\<close>, show
  \<open>-1:-1\<close> for an instant and report a second win.
\<close>

lemma startTimer_after_completion:
  "timerState (startTimer ((tick ^^ 1500) (startTimer (initial samplePage)))) = Running \<and>
   secondsLeft (tick (startTimer ((tick ^^ 1500) (startTimer (initial samplePage))))) = - 1 \<and>
   formatTime (- 1) = ''-1:-1'' \<and>
   step ClickStart ((tick ^^ 1500) (startTimer (initial samplePage))) =
     (tick ^^ 1500) (startTimer (initial samplePage))"
proof -
  let ?d = "(tick ^^ 1500) (startTimer (initial samplePage))"
  have "secondsLeft (startTimer (initial samplePage)) = int (Suc 1499)"
    by (simp add: started_sample_fields)
  from ticks_last[OF this] obtain p where
    "(tick ^^ Suc 1499) (startTimer (initial samplePage)) =
       (startTimer (initial samplePage))\<lparr> secondsLeft := 0, page := p,
          timers := (case intervalId (startTimer (initial samplePage)) of
                       None \<Rightarrow> timers (startTimer (initial samplePage))
                     | Some h \<Rightarrow> removeAll h (timers (startTimer (initial samplePage)))),
          sessionLocked := True, timerState := Done, unloadGuard := False,
          requests := requests (startTimer (initial samplePage)) @ [win_request],
          pending := pending (startTimer (initial samplePage)) @ [AfterWin] \<rparr>" by blast
  then have "timerState ((tick ^^ Suc 1499) (startTimer (initial samplePage))) = Done"
    and "secondsLeft ((tick ^^ Suc 1499) (startTimer (initial samplePage))) = 0"
    by simp_all
  moreover have "Suc 1499 = (1500::nat)" by simp
  ultimately have d: "timerState ?d = Done" and z: "secondsLeft ?d = 0"
    by (simp_all only:)
  have nr: "timerState ?d \<noteq> Running" by (simp only: d) simp
  from startTimer_frame[OF nr] obtain p' where
    eq: "startTimer ?d = ?d\<lparr> timerState := Running, sessionLocked := False, page := p',
              timers := timers ?d @ [nextHandle ?d], nextHandle := Suc (nextHandle ?d),
              intervalId := Some (nextHandle ?d), unloadGuard := True \<rparr>" by blast
  have a: "timerState (startTimer ?d) = Running" by (subst eq) simp
  have "secondsLeft (startTimer ?d) = secondsLeft ?d" by (subst eq) simp
  then have b: "secondsLeft (tick (startTimer ?d)) = - 1"
    by (simp add: tick_secondsLeft z)
  have c: "formatTime (- 1) = ''-1:-1''"
    by (simp add: formatTime_def Let_def padStart_def Number_toString_def js_rem_def digit_chars_def)
  have "btnStart_disabled (page ?d)"
    by (simp only: ticks_disabled started_sample_fields)
  then have e: "step ClickStart ?d = ?d" by (simp only: step_def event.case if_True)
  from a b c e show ?thesis by (intro conjI)
qed

lemma unload_does_not_latch:
  assumes "timerState s = Running" and "\<not> sessionLocked s" and "unloadGuard s"
  shows "step BeforeUnload s = s\<lparr> requests := requests s @ [loss_request True] \<rparr>"
    and "run [BeforeUnload, BeforeUnload] s =
           s\<lparr> requests := requests s @ [loss_request True, loss_request True] \<rparr>"
  using assms by (simp_all add: step_def handleBeforeUnload_active)

section \<open>Leaving the page twice\<close>

text \<open>
  C1. The first \<open>beforeunload\<close> in a running, unlocked session sends exactly one loss
  report, with \<open>keepalive\<close>. The handler does not set the lock flag, unlike the two other
  paths that report. The session stays running and unlocked when the visitor dismisses
  the prompt: a second \<open>beforeunload\<close> sends a second loss report, and when the countdown
  then runs to its end the same session reports a win as well.
\<close>

theorem unload_twice_reports_twice:
  "requests (run [ClickStart, BeforeUnload] (initial samplePage)) = [loss_request True] \<and>
   \<not> sessionLocked (run [ClickStart, BeforeUnload] (initial samplePage)) \<and>
   timerState (run [ClickStart, BeforeUnload] (initial samplePage)) = Running \<and>
   requests (run [ClickStart, BeforeUnload, BeforeUnload] (initial samplePage)) =
     [loss_request True, loss_request True] \<and>
   requests (run (ClickStart # BeforeUnload # replicate 1500 IntervalFires) (initial samplePage)) =
     [loss_request True, win_request]"
proof -
  let ?s0 = "startTimer (initial samplePage)"
  let ?s1 = "?s0\<lparr> requests := [loss_request True] \<rparr>"
  have one: "run [ClickStart, BeforeUnload] (initial samplePage) = ?s1"
    by (simp add: sample_runs)
  have a: "requests (run [ClickStart, BeforeUnload] (initial samplePage)) = [loss_request True]"
    and b: "\<not> sessionLocked (run [ClickStart, BeforeUnload] (initial samplePage))"
    and c: "timerState (run [ClickStart, BeforeUnload] (initial samplePage)) = Running"
    unfolding one by (simp_all add: started_sample_fields)
  have r1: "timerState ?s1 = Running" "\<not> sessionLocked ?s1" "unloadGuard ?s1"
    by (simp_all add: started_sample_fields)
  have "run [ClickStart, BeforeUnload, BeforeUnload] (initial samplePage) = step BeforeUnload ?s1"
    by (simp add: sample_runs)
  then have d: "requests (run [ClickStart, BeforeUnload, BeforeUnload] (initial samplePage)) =
     [loss_request True, loss_request True]"
    by (simp add: unload_does_not_latch(1)[OF r1])
  have "run (ClickStart # BeforeUnload # replicate 1500 IntervalFires) (initial samplePage) =
          run (replicate 1500 IntervalFires) ?s1"
    by (simp add: sample_runs)
  also have "\<dots> = (tick ^^ 1500) ?s1"
    by (rule run_ticks) (simp_all add: started_sample_fields)
  finally have two: "run (ClickStart # BeforeUnload # replicate 1500 IntervalFires) (initial samplePage) =
          (tick ^^ 1500) ?s1" .
  have "secondsLeft ?s1 = int (Suc 1499)" by (simp add: started_sample_fields)
  from ticks_last[OF this] obtain p where
    "(tick ^^ Suc 1499) ?s1 =
       ?s1\<lparr> secondsLeft := 0, page := p,
          timers := (case intervalId ?s1 of None \<Rightarrow> timers ?s1 | Some h \<Rightarrow> removeAll h (timers ?s1)),
          sessionLocked := True, timerState := Done, unloadGuard := False,
          requests := requests ?s1 @ [win_request], pending := pending ?s1 @ [AfterWin] \<rparr>" by blast
  then have "requests ((tick ^^ Suc 1499) ?s1) = [loss_request True, win_request]"
    by simp
  moreover have "Suc 1499 = (1500::nat)" by simp
  ultimately have "requests ((tick ^^ 1500) ?s1) = [loss_request True, win_request]"
    by (simp only:)
  then have e: "requests (run (ClickStart # BeforeUnload # replicate 1500 IntervalFires) (initial samplePage)) =
     [loss_request True, win_request]"
    by (simp only: two)
  from a b c d e show ?thesis by (intro conjI)
qed

end
